theory Spec2Isabelle
  imports Main "HOL-Library.Word" "HOL-Library.Sublist"
begin

section \<open>JavaScript strings and numbers\<close>

text \<open>
  A JavaScript string is modelled as a \<^typ>\<open>string\<close>: a list of characters, each a code
  point in the range U+0000 to U+00FF (the Latin-1 part of the UTF-16 code units);
  strings with other code units are not described. A string of this range is
  well-formed text: it has one character for each code unit, and it goes to the store
  and comes back from it as it is. Within the range the characters that
  \<^verbatim>\<open>String.prototype.trim\<close> strips and that the regular expression class \<^verbatim>\<open>\s\<close>
  matches are the same seven: TAB, LF, VT, FF, CR, SPACE and NO-BREAK SPACE.
\<close>

definition isWhiteSpace :: "char \<Rightarrow> bool" where
  "isWhiteSpace c =
     (c \<in> set [CHR 0x09, CHR 0x0A, CHR 0x0B, CHR 0x0C, CHR 0x0D, CHR 0x20, CHR 0xA0])"

definition trim :: "string \<Rightarrow> string" where
  "trim s = rev (dropWhile isWhiteSpace (rev (dropWhile isWhiteSpace s)))"

text \<open>
  \<^verbatim>\<open>toLowerCase\<close> on Latin-1: the letters A to Z and the letters U+00C0 to U+00DE
  (without the multiplication sign U+00D7) move 32 places up; every other character
  stays. What the store's limits mean for a request is stated below on the values the
  handlers hand to the store, the trimmed name and the lowercased email, and not on
  the fields of the request.
\<close>

definition toLowerCase_char :: "char \<Rightarrow> char" where
  "toLowerCase_char c =
     (let n = (of_char c :: nat)
      in if (65 \<le> n \<and> n \<le> 90) \<or> (192 \<le> n \<and> n \<le> 222 \<and> n \<noteq> 215)
         then char_of (n + 32) else c)"

definition toLowerCase :: "string \<Rightarrow> string" where
  "toLowerCase s = map toLowerCase_char s"

text \<open>
  Modelled from the spec: the message types of \<^verbatim>\<open>proto/user.proto\<close>, which the
  handlers load and which is not among the sources. The wire contract gives
  \<^verbatim>\<open>name\<close>, \<^verbatim>\<open>email\<close> and \<^verbatim>\<open>name_filter\<close> as strings and \<^verbatim>\<open>id\<close> as an integer,
  which the handlers' comments make a signed 32-bit one. A field is present or absent
  (\<open>None\<close>, the JavaScript \<^verbatim>\<open>undefined\<close>).
\<close>

type_synonym string_field = "string option"

type_synonym int32_field = "32 word option"

text \<open>\<^verbatim>\<open>!v\<close> holds for an absent string and for the empty string.\<close>

definition falsy :: "string_field \<Rightarrow> bool" where
  "falsy v = (case v of None \<Rightarrow> True | Some s \<Rightarrow> s = [])"

text \<open>The decimal text of a number, as a template literal prints it.\<close>

function string_of_nat :: "nat \<Rightarrow> string" where
  "string_of_nat n =
     (if n < 10 then [''0123456789'' ! n]
      else string_of_nat (n div 10) @ [''0123456789'' ! (n mod 10)])"
  by pat_completeness auto
termination
  by (relation "measure (\<lambda>n. n)") auto

declare string_of_nat.simps [simp del]

definition string_of_int :: "int \<Rightarrow> string" where
  "string_of_int i =
     (if i < 0 then CHR ''-'' # string_of_nat (nat (- i)) else string_of_nat (nat i))"

section \<open>Regular expressions\<close>

text \<open>
  The fragment of regular expressions that \<^verbatim>\<open>isValidEmail\<close> needs, with a matcher by
  derivatives. \<open>Atom p\<close> is a character class: it matches one character \<open>c\<close> with
  \<open>p c\<close>. \<open>Plus r\<close> is \<^verbatim>\<open>r+\<close>.
\<close>

datatype regex =
    Zero
  | One
  | Atom "char \<Rightarrow> bool"
  | Alt regex regex
  | Seq regex regex
  | Star regex

definition Plus :: "regex \<Rightarrow> regex" where
  "Plus r = Seq r (Star r)"

fun nullable :: "regex \<Rightarrow> bool" where
  "nullable Zero = False"
| "nullable One = True"
| "nullable (Atom p) = False"
| "nullable (Alt r s) = (nullable r \<or> nullable s)"
| "nullable (Seq r s) = (nullable r \<and> nullable s)"
| "nullable (Star r) = True"

fun deriv :: "char \<Rightarrow> regex \<Rightarrow> regex" where
  "deriv c Zero = Zero"
| "deriv c One = Zero"
| "deriv c (Atom p) = (if p c then One else Zero)"
| "deriv c (Alt r s) = Alt (deriv c r) (deriv c s)"
| "deriv c (Seq r s) =
     (if nullable r then Alt (Seq (deriv c r) s) (deriv c s) else Seq (deriv c r) s)"
| "deriv c (Star r) = Seq (deriv c r) (Star r)"

text \<open>
  \<^verbatim>\<open>regex.test(s)\<close> for a pattern anchored with \<^verbatim>\<open>^\<close> and \<^verbatim>\<open>$\<close> (no flags): the
  whole of \<open>s\<close> has to match.
\<close>

fun regex_test :: "regex \<Rightarrow> string \<Rightarrow> bool" where
  "regex_test r [] = nullable r"
| "regex_test r (c # cs) = regex_test (deriv c r) cs"

text \<open>The class \<^verbatim>\<open>[^\s@]\<close>.\<close>

definition notSpaceAt :: "char \<Rightarrow> bool" where
  "notSpaceAt c = (\<not> isWhiteSpace c \<and> c \<noteq> CHR ''@'')"

text \<open>\<^verbatim>\<open>/^[^\s@]+@[^\s@]+\.[^\s@]+$/\<close>\<close>

definition emailRegex :: regex where
  "emailRegex =
     Seq (Plus (Atom notSpaceAt))
       (Seq (Atom (\<lambda>c. c = CHR ''@''))
         (Seq (Plus (Atom notSpaceAt))
           (Seq (Atom (\<lambda>c. c = CHR ''.''))
             (Plus (Atom notSpaceAt)))))"

definition isValidEmail :: "string \<Rightarrow> bool" where
  "isValidEmail email = regex_test emailRegex email"

text \<open>
  The meaning of a regular expression, to check the matcher against: \<open>matches r v\<close>
  holds when the whole string \<open>v\<close> is a word of \<open>r\<close>.
\<close>

inductive matches :: "regex \<Rightarrow> string \<Rightarrow> bool" where
  One: "matches One []"
| Atom: "p c \<Longrightarrow> matches (Atom p) [c]"
| AltL: "matches r v \<Longrightarrow> matches (Alt r s) v"
| AltR: "matches s v \<Longrightarrow> matches (Alt r s) v"
| Seq: "matches r u \<Longrightarrow> matches s w \<Longrightarrow> matches (Seq r s) (u @ w)"
| StarNil: "matches (Star r) []"
| StarStep: "matches r u \<Longrightarrow> matches (Star r) w \<Longrightarrow> matches (Star r) (u @ w)"

section \<open>The record store\<close>

text \<open>
  A row of the table that \<^verbatim>\<open>initializeDatabase\<close> creates:
  \<^verbatim>\<open>users (id SERIAL PRIMARY KEY, name VARCHAR(255) NOT NULL, email VARCHAR(255) NOT NULL UNIQUE)\<close>.
\<close>

record user =
  user_id :: int
  user_name :: string
  user_email :: string

text \<open>
  The error a rejected \<^verbatim>\<open>pool.query\<close> promise carries: \<^verbatim>\<open>err.code\<close> (the SQLSTATE of
  a server error, a system error name for a connection failure, absent otherwise) and
  \<^verbatim>\<open>err.message\<close>.
\<close>

datatype js_error = JsError (err_code: "string option") (err_message: string)

text \<open>
  The statements that \<^verbatim>\<open>initializeDatabase\<close> and the handlers send, with their
  parameters.
\<close>

datatype statement =
    CreateTable
  | InsertUser string string
  | SelectUsers
  | SelectUsersLike string
  | DeleteUserById int

text \<open>
  The state behind \<^verbatim>\<open>pool\<close>: the rows of \<open>users\<close> in storage order, the next value
  of the sequence behind the \<open>SERIAL\<close> column, and the statements handed to
  \<^verbatim>\<open>pool.query\<close> so far. A database in which the table is still missing is
  described as the empty table with its sequence at 1, which is what
  \<^verbatim>\<open>CREATE TABLE IF NOT EXISTS\<close> makes of it.
\<close>

record pool_state =
  users :: "user list"
  next_id :: int
  issued :: "statement list"

definition empty_database :: pool_state where
  "empty_database = \<lparr>users = [], next_id = 1, issued = []\<rparr>"

text \<open>
  One call of \<^verbatim>\<open>pool.query\<close>. The statement is recorded. The environment decides
  through \<open>fault\<close> whether the call fails for a reason that is not in the statement's
  meaning as it is written out below (no connection, the server shutting down, the
  sequence of ids used up): then the promise rejects with that error and the table
  stays as it is. Otherwise \<open>exec\<close>, the meaning of the statement, runs.
\<close>

definition pool_query ::
  "js_error option \<Rightarrow> statement \<Rightarrow> (pool_state \<Rightarrow> (js_error + 'a) \<times> pool_state) \<Rightarrow>
     pool_state \<Rightarrow> (js_error + 'a) \<times> pool_state" where
  "pool_query fault q exec s =
     (let s1 = s\<lparr>issued := issued s @ [q]\<rparr>
      in case fault of Some e \<Rightarrow> (Inl e, s1) | None \<Rightarrow> exec s1)"

definition pg_error :: "string \<Rightarrow> string \<Rightarrow> js_error" where
  "pg_error sqlstate msg = JsError (Some sqlstate) msg"

text \<open>
  \<^verbatim>\<open>initializeDatabase\<close>: \<^verbatim>\<open>CREATE TABLE IF NOT EXISTS users (...)\<close> leaves a table
  that exists as it is. An error of the query is thrown on.
\<close>

definition initializeDatabase :: "js_error option \<Rightarrow> pool_state \<Rightarrow> (js_error + unit) \<times> pool_state" where
  "initializeDatabase fault s = pool_query fault CreateTable (\<lambda>s'. (Inr (), s')) s"

text \<open>
  A string parameter reaches the server as a text. The server takes no text with the
  character U+0000 in it: the statement is refused with SQLSTATE 22021 before anything
  of it runs.
\<close>

definition pg_text :: "string \<Rightarrow> bool" where
  "pg_text v = (CHR 0x00 \<notin> set v)"

definition invalid_byte_sequence :: js_error where
  "invalid_byte_sequence =
     pg_error ''22021''
       (''invalid byte sequence for encoding '' @ [CHR 0x22] @ ''UTF8'' @ [CHR 0x22] @ '': 0x00'')"

text \<open>
  Storing a string into a \<open>VARCHAR(255)\<close> column: a longer string is an error, unless
  the characters beyond the limit are all spaces, which are cut off.
\<close>

definition varchar255 :: "string \<Rightarrow> string option" where
  "varchar255 v =
     (if length v \<le> 255 then Some v
      else if list_all (\<lambda>c. c = CHR '' '') (drop 255 v) then Some (take 255 v)
      else None)"

text \<open>
  \<^verbatim>\<open>INSERT INTO users (name, email) VALUES ($1, $2) RETURNING id, name, email\<close>.
  Both parameters have to be texts, and both have to fit their columns; a statement
  refused for one of these reasons (SQLSTATE 22021, 22001) has not run, and the
  sequence is where it was. Then the id is drawn from the sequence; a value once drawn
  is not given back when the insert fails afterwards. The primary key and the
  \<open>UNIQUE\<close> constraint compare for equality; a violation has SQLSTATE 23505.
\<close>

definition sql_insert :: "string \<Rightarrow> string \<Rightarrow> pool_state \<Rightarrow> (js_error + user list) \<times> pool_state" where
  "sql_insert n e s =
     (if \<not> pg_text n \<or> \<not> pg_text e then (Inl invalid_byte_sequence, s)
      else
        case (varchar255 n, varchar255 e) of
          (Some n', Some e') \<Rightarrow>
            let i = next_id s; s' = s\<lparr>next_id := i + 1\<rparr>
            in if \<exists>r \<in> set (users s). user_id r = i \<or> user_email r = e'
               then (Inl (pg_error ''23505'' ''duplicate key value violates unique constraint''), s')
               else
                 let row = \<lparr>user_id = i, user_name = n', user_email = e'\<rparr>
                 in (Inr [row], s'\<lparr>users := users s @ [row]\<rparr>)
        | _ \<Rightarrow> (Inl (pg_error ''22001'' ''value too long for type character varying(255)''), s))"

text \<open>
  \<open>LIKE\<close>: in the pattern \<open>%\<close> stands for any string, \<open>_\<close> for any one character, and
  a backslash makes the character after it stand for itself. A pattern that ends in a
  single backslash is an error.
\<close>

datatype like_token = AnyString | AnyChar | Literal char

fun like_parse :: "string \<Rightarrow> like_token list option" where
  "like_parse [] = Some []"
| "like_parse (c # cs) =
     (if c = CHR 0x5C then
        (case cs of
           [] \<Rightarrow> None
         | d # ds \<Rightarrow> map_option ((#) (Literal d)) (like_parse ds))
      else
        map_option
          ((#) (if c = CHR ''%'' then AnyString else if c = CHR ''_'' then AnyChar else Literal c))
          (like_parse cs))"

fun like_match :: "like_token list \<Rightarrow> string \<Rightarrow> bool" where
  "like_match [] s = (s = [])"
| "like_match (Literal c # ts) s = (case s of [] \<Rightarrow> False | x # xs \<Rightarrow> x = c \<and> like_match ts xs)"
| "like_match (AnyChar # ts) s = (case s of [] \<Rightarrow> False | x # xs \<Rightarrow> like_match ts xs)"
| "like_match (AnyString # ts) s =
     (like_match ts s \<or> (case s of [] \<Rightarrow> False | x # xs \<Rightarrow> like_match (AnyString # ts) xs))"

text \<open>\<^verbatim>\<open>SELECT id, name, email FROM users ORDER BY id\<close>\<close>

definition sql_select_all :: "pool_state \<Rightarrow> (js_error + user list) \<times> pool_state" where
  "sql_select_all s = (Inr (sort_key user_id (users s)), s)"

text \<open>
  \<^verbatim>\<open>SELECT id, name, email FROM users WHERE LOWER(name) LIKE LOWER($1) ORDER BY id\<close>.
  The parameter has to be a text. \<open>LOWER\<close> is taken to be the function
  \<^verbatim>\<open>toLowerCase\<close> is.
\<close>

definition sql_select_like :: "string \<Rightarrow> pool_state \<Rightarrow> (js_error + user list) \<times> pool_state" where
  "sql_select_like p s =
     (if \<not> pg_text p then (Inl invalid_byte_sequence, s)
      else
        case like_parse (toLowerCase p) of
          None \<Rightarrow> (Inl (pg_error ''22025'' ''LIKE pattern must not end with escape character''), s)
        | Some ts \<Rightarrow>
            (Inr (sort_key user_id
                    (filter (\<lambda>r. like_match ts (toLowerCase (user_name r))) (users s))), s))"

text \<open>
  \<^verbatim>\<open>DELETE FROM users WHERE id = $1 RETURNING id\<close>: the result has the id of every row
  that was removed.
\<close>

definition sql_delete :: "int \<Rightarrow> pool_state \<Rightarrow> (js_error + int list) \<times> pool_state" where
  "sql_delete i s =
     (Inr (map user_id (filter (\<lambda>r. user_id r = i) (users s))),
      s\<lparr>users := filter (\<lambda>r. user_id r \<noteq> i) (users s)\<rparr>)"

section \<open>The service handlers\<close>

text \<open>The status codes of \<^verbatim>\<open>grpc.status\<close>.\<close>

datatype grpc_status =
    OK | CANCELLED | UNKNOWN | INVALID_ARGUMENT | DEADLINE_EXCEEDED | NOT_FOUND
  | ALREADY_EXISTS | PERMISSION_DENIED | RESOURCE_EXHAUSTED | FAILED_PRECONDITION
  | ABORTED | OUT_OF_RANGE | UNIMPLEMENTED | INTERNAL | UNAVAILABLE | DATA_LOSS
  | UNAUTHENTICATED

text \<open>
  What a handler passes to \<^verbatim>\<open>callback\<close>: an error object \<^verbatim>\<open>{code, message}\<close> (\<open>Inl\<close>)
  or a response (\<open>Inr\<close>).
\<close>

datatype service_error = ServiceError (code: grpc_status) (message: string)

datatype delete_response = DeleteUserResponse (success: bool) (response_message: string)

text \<open>
  \<^verbatim>\<open>createUser\<close>. \<open>name\<close> and \<open>email\<close> are the fields of \<^verbatim>\<open>call.request\<close>; \<open>fault\<close> is
  what the environment does to the one query the handler may send. The lines the
  handlers write to the console are left out.
\<close>

definition createUser ::
  "js_error option \<Rightarrow> string_field \<Rightarrow> string_field \<Rightarrow> pool_state \<Rightarrow>
     (service_error + user) \<times> pool_state" where
  "createUser fault name email s =
     (if falsy name \<or> falsy email
      then (Inl (ServiceError INVALID_ARGUMENT ''All fields are required''), s)
      else if length (trim (the name)) = 0
      then (Inl (ServiceError INVALID_ARGUMENT ''Name cannot be empty''), s)
      else if \<not> isValidEmail (the email)
      then (Inl (ServiceError INVALID_ARGUMENT ''Invalid email format''), s)
      else
        (case pool_query fault (InsertUser (trim (the name)) (toLowerCase (the email)))
                (sql_insert (trim (the name)) (toLowerCase (the email))) s of
           (Inr rows, s') \<Rightarrow>
             (case rows of
                row # _ \<Rightarrow> (Inr row, s')
              | [] \<Rightarrow> (Inl (ServiceError INTERNAL ''Failed to create user''), s'))
         | (Inl err, s') \<Rightarrow>
             if err_code err = Some ''23505''
             then (Inl (ServiceError ALREADY_EXISTS ''User with this email already exists''), s')
             else (Inl (ServiceError INTERNAL ''Failed to create user''), s')))"

text \<open>\<^verbatim>\<open>getUsers\<close>. \<open>name_filter\<close> is the field of \<^verbatim>\<open>call.request\<close>.\<close>

definition getUsers ::
  "js_error option \<Rightarrow> string_field \<Rightarrow> pool_state \<Rightarrow> (service_error + user list) \<times> pool_state" where
  "getUsers fault name_filter s =
     (case
        (if \<not> falsy name_filter \<and> length (trim (the name_filter)) > 0
         then pool_query fault (SelectUsersLike (''%'' @ trim (the name_filter) @ ''%''))
                (sql_select_like (''%'' @ trim (the name_filter) @ ''%'')) s
         else pool_query fault SelectUsers sql_select_all s)
      of
        (Inr rows, s') \<Rightarrow> (Inr rows, s')
      | (Inl err, s') \<Rightarrow> (Inl (ServiceError INTERNAL ''Failed to retrieve users''), s'))"

text \<open>
  \<^verbatim>\<open>deleteUser\<close>. \<open>rid\<close> is the field \<^verbatim>\<open>id\<close> of \<^verbatim>\<open>call.request\<close>, on the wire
  a signed 32-bit integer; \<^verbatim>\<open>!id\<close> holds for an absent id and for 0.
\<close>

definition deleteUser ::
  "js_error option \<Rightarrow> int32_field \<Rightarrow> pool_state \<Rightarrow>
     (service_error + delete_response) \<times> pool_state" where
  "deleteUser fault rid s =
     (if rid = None \<or> rid = Some 0
      then (Inl (ServiceError INVALID_ARGUMENT ''User ID is required''), s)
      else
        (case pool_query fault (DeleteUserById (sint (the rid))) (sql_delete (sint (the rid))) s of
           (Inr rows, s') \<Rightarrow>
             if length rows = 0
             then (Inl (ServiceError NOT_FOUND
                          (''User with ID '' @ string_of_int (sint (the rid)) @ '' not found'')), s')
             else (Inr (DeleteUserResponse True
                          (''User with ID '' @ string_of_int (sint (the rid)) @ '' successfully deleted'')), s')
         | (Inl err, s') \<Rightarrow> (Inl (ServiceError INTERNAL ''Failed to delete user''), s')))"

text \<open>
  The service as \<^verbatim>\<open>main\<close> registers it:
  \<^verbatim>\<open>{CreateUser: createUser, GetUsers: getUsers, DeleteUser: deleteUser}\<close>.
\<close>

datatype request =
    CreateUser string_field string_field
  | GetUsers string_field
  | DeleteUser int32_field

datatype response =
    CreateUserReply user
  | GetUsersReply "user list"
  | DeleteUserReply delete_response

definition serve ::
  "js_error option \<Rightarrow> request \<Rightarrow> pool_state \<Rightarrow> (service_error + response) \<times> pool_state" where
  "serve fault req s =
     (case req of
        CreateUser name email \<Rightarrow> apfst (map_sum (\<lambda>e. e) CreateUserReply) (createUser fault name email s)
      | GetUsers name_filter \<Rightarrow> apfst (map_sum (\<lambda>e. e) GetUsersReply) (getUsers fault name_filter s)
      | DeleteUser rid \<Rightarrow> apfst (map_sum (\<lambda>e. e) DeleteUserReply) (deleteUser fault rid s))"

text \<open>
  The store after a sequence of calls, handled one after the other, each with what the
  environment does to its query.
\<close>

fun serve_all :: "(js_error option \<times> request) list \<Rightarrow> pool_state \<Rightarrow> pool_state" where
  "serve_all [] s = s"
| "serve_all ((fault, req) # calls) s = serve_all calls (snd (serve fault req s))"

section \<open>The readiness loops\<close>

text \<open>
  What a process does while it starts, in order: a probe (with the loop index of the
  attempt), a line on the console, a sleep of so many milliseconds.
\<close>

datatype event =
    Attempt nat
  | ConsoleLog string
  | ConsoleError string
  | Sleep nat

text \<open>How a process stands after \<^verbatim>\<open>main\<close>: ended by \<^verbatim>\<open>process.exit\<close>, or still running.\<close>

datatype process = Exited int | Running

text \<open>
  \<^verbatim>\<open>waitForDatabase\<close>, from loop index \<open>i\<close> on. \<open>probe i\<close> tells whether the query
  \<^verbatim>\<open>SELECT 1\<close> of attempt \<open>i\<close> succeeds. The result is \<open>Inr ()\<close> for a return and
  \<open>Inl\<close> the error for a throw.
\<close>

function waitForDatabase_from ::
  "nat \<Rightarrow> nat \<Rightarrow> nat \<Rightarrow> (nat \<Rightarrow> bool) \<Rightarrow> event list \<times> (js_error + unit)" where
  "waitForDatabase_from i retries delayMs probe =
     (if i < retries then
        (if probe i then ([Attempt i, ConsoleLog ''Database is ready''], Inr ())
         else
           (case waitForDatabase_from (i + 1) retries delayMs probe of
              (evs, r) \<Rightarrow>
                (Attempt i
                 # ConsoleLog (''DB not ready, retry '' @ string_of_nat (i + 1) @ ''/''
                               @ string_of_nat retries @ ''...'')
                 # Sleep delayMs # evs, r)))
      else ([], Inl (JsError None ''Database did not become ready in time'')))"
  by pat_completeness auto
termination
  by (relation "measure (\<lambda>(i, retries, delayMs, probe). retries - i)") auto

declare waitForDatabase_from.simps [simp del]

definition waitForDatabase :: "nat \<Rightarrow> nat \<Rightarrow> (nat \<Rightarrow> bool) \<Rightarrow> event list \<times> (js_error + unit)" where
  "waitForDatabase retries delayMs probe = waitForDatabase_from 0 retries delayMs probe"

text \<open>
  The server's \<^verbatim>\<open>main\<close>. \<open>init_fault\<close> is what the environment does to the query of
  \<^verbatim>\<open>initializeDatabase\<close>, \<open>bind_ok\<close> whether the listener could be bound. An error
  caught on the way to the listener ends the process with status 1; a listener that
  cannot be bound is only reported.
\<close>

definition server_main :: "(nat \<Rightarrow> bool) \<Rightarrow> js_error option \<Rightarrow> bool \<Rightarrow> event list \<times> process" where
  "server_main probe init_fault bind_ok =
     (case waitForDatabase 20 1000 probe of
        (evs, Inl err) \<Rightarrow>
          ([ConsoleLog ''Waiting for database connection...'', Sleep 3000] @ evs
           @ [ConsoleError ''Failed to start server:''], Exited 1)
      | (evs, Inr _) \<Rightarrow>
          (case init_fault of
             Some err \<Rightarrow>
               ([ConsoleLog ''Waiting for database connection...'', Sleep 3000] @ evs
                @ [ConsoleError ''Failed to initialize database:'',
                   ConsoleError ''Failed to start server:''], Exited 1)
           | None \<Rightarrow>
               ([ConsoleLog ''Waiting for database connection...'', Sleep 3000] @ evs
                @ [ConsoleLog ''Database initialized successfully'']
                @ (if bind_ok
                   then [ConsoleLog ''gRPC User Service started on port 50051'',
                         ConsoleLog ''Connected to PostgreSQL database'']
                   else [ConsoleError ''Failed to start server:'']), Running)))"

text \<open>
  The client's \<^verbatim>\<open>waitForServer\<close>, from loop index \<open>i\<close> on. \<open>probe i\<close> tells whether the
  call \<^verbatim>\<open>GetUsers({})\<close> of attempt \<open>i\<close> succeeds. The result is \<open>Inr True\<close> for the
  return of \<^verbatim>\<open>true\<close> and \<open>Inl\<close> the error for a throw.
\<close>

function waitForServer_from ::
  "nat \<Rightarrow> nat \<Rightarrow> nat \<Rightarrow> (nat \<Rightarrow> bool) \<Rightarrow> event list \<times> (js_error + bool)" where
  "waitForServer_from i maxRetries delayMs probe =
     (if i < maxRetries then
        (if probe i then ([Attempt i, ConsoleLog ''Server is ready and responding\<newline>''], Inr True)
         else
           (case waitForServer_from (i + 1) maxRetries delayMs probe of
              (evs, r) \<Rightarrow>
                (Attempt i
                 # ConsoleLog (''Waiting for server... (attempt '' @ string_of_nat (i + 1) @ ''/''
                               @ string_of_nat maxRetries @ '')'')
                 # Sleep delayMs # evs, r)))
      else ([], Inl (JsError None ''Server did not become available in time'')))"
  by pat_completeness auto
termination
  by (relation "measure (\<lambda>(i, maxRetries, delayMs, probe). maxRetries - i)") auto

declare waitForServer_from.simps [simp del]

definition waitForServer :: "nat \<Rightarrow> nat \<Rightarrow> (nat \<Rightarrow> bool) \<Rightarrow> event list \<times> (js_error + bool)" where
  "waitForServer maxRetries delayMs probe = waitForServer_from 0 maxRetries delayMs probe"

text \<open>
  The client's \<^verbatim>\<open>main\<close> up to the end of the readiness loop and its exit status.
  \<open>demo_ok\<close> tells whether every call of the demonstration that follows succeeds; its
  console output is left out.
\<close>

definition client_main :: "(nat \<Rightarrow> bool) \<Rightarrow> bool \<Rightarrow> event list \<times> process" where
  "client_main probe demo_ok =
     (case waitForServer 30 1000 probe of
        (evs, Inl err) \<Rightarrow>
          (ConsoleLog ''Connecting to gRPC server at user-service-server:50051...'' # evs
           @ [ConsoleError (''Failed to connect to server: '' @ err_message err)], Exited 1)
      | (evs, Inr _) \<Rightarrow>
          (ConsoleLog ''Connecting to gRPC server at user-service-server:50051...'' # evs,
           if demo_ok then Exited 0 else Exited 1))"

section \<open>Example states\<close>

text \<open>The store after one user has been created in the empty table.\<close>

definition ann_database :: pool_state where
  "ann_database =
     \<lparr>users = [\<lparr>user_id = 1, user_name = ''Ann'', user_email = ''ann@x.org''\<rparr>],
      next_id = 2, issued = [InsertUser ''Ann'' ''ann@x.org'']\<rparr>"

section \<open>Invariants of the store\<close>

text \<open>The sequence is ahead of the table: every id in the table has been drawn already.\<close>

definition sequence_ahead :: "pool_state \<Rightarrow> bool" where
  "sequence_ahead s = (\<forall>r \<in> set (users s). user_id r < next_id s)"

text \<open>
  Every stored email is in the form \<^verbatim>\<open>createUser\<close> gives it: it matches the pattern,
  is lowercase and free of whitespace, and is a text within the column's length.
\<close>

definition emails_normalized :: "pool_state \<Rightarrow> bool" where
  "emails_normalized s =
     (\<forall>r \<in> set (users s).
        isValidEmail (user_email r)
        \<and> toLowerCase (user_email r) = user_email r
        \<and> list_all (\<lambda>c. \<not> isWhiteSpace c) (user_email r)
        \<and> pg_text (user_email r)
        \<and> length (user_email r) \<le> 255)"

text \<open>No two rows have the same email, letter case left aside.\<close>

definition emails_unique :: "pool_state \<Rightarrow> bool" where
  "emails_unique s = distinct (map (\<lambda>r. toLowerCase (user_email r)) (users s))"

text \<open>\<open>atoms_all Q r\<close>: every character class of \<open>r\<close> has the property \<open>Q\<close>.\<close>

fun atoms_all :: "((char \<Rightarrow> bool) \<Rightarrow> bool) \<Rightarrow> regex \<Rightarrow> bool" where
  "atoms_all Q Zero = True"
| "atoms_all Q One = True"
| "atoms_all Q (Atom p) = Q p"
| "atoms_all Q (Alt r s) = (atoms_all Q r \<and> atoms_all Q s)"
| "atoms_all Q (Seq r s) = (atoms_all Q r \<and> atoms_all Q s)"
| "atoms_all Q (Star r) = atoms_all Q r"

text \<open>The characters that stand for themselves in a \<open>LIKE\<close> pattern.\<close>

definition like_plain :: "char \<Rightarrow> bool" where
  "like_plain c = (c \<noteq> CHR ''%'' \<and> c \<noteq> CHR ''_'' \<and> c \<noteq> CHR 0x5C)"

section \<open>Basic facts\<close>

lemma initializeDatabase_keeps_table:
  "users (snd (initializeDatabase fault s)) = users s
   \<and> next_id (snd (initializeDatabase fault s)) = next_id s"
  by (cases fault) (simp_all add: initializeDatabase_def pool_query_def)

lemma pool_query_None: "pool_query None q exec s = exec (s\<lparr>issued := issued s @ [q]\<rparr>)"
  by (simp add: pool_query_def)

lemma pool_query_Some: "pool_query (Some e) q exec s = (Inl e, s\<lparr>issued := issued s @ [q]\<rparr>)"
  by (simp add: pool_query_def)

lemma filter_user_id_empty: "(filter (\<lambda>r. user_id r = i) rs = []) = (i \<notin> user_id ` set rs)"
  by (induction rs) auto

lemma filter_user_id_absent: "i \<notin> user_id ` set rs \<Longrightarrow> filter (\<lambda>r. user_id r \<noteq> i) rs = rs"
  by (induction rs) auto

lemma trim_Ann: "trim ''Ann'' = ''Ann''"
  by code_simp

lemma trim_Ann_padded: "trim '' Ann '' = ''Ann''"
  by code_simp

lemma trim_blank: "trim ''  '' = []"
  by code_simp

lemma valid_ann: "isValidEmail ''Ann@X.org''"
  by code_simp

lemma invalid_not_an_email: "\<not> isValidEmail ''not-an-email''"
  by code_simp

lemma lower_ann: "toLowerCase ''Ann@X.org'' = ''ann@x.org''"
  by code_simp

lemma ann_database_created:
  "createUser None (Some '' Ann '') (Some ''Ann@X.org'') empty_database =
     (Inr \<lparr>user_id = 1, user_name = ''Ann'', user_email = ''ann@x.org''\<rparr>, ann_database)"
  by (simp add: createUser_def falsy_def trim_Ann_padded valid_ann lower_ann pool_query_None
      sql_insert_def pg_text_def varchar255_def Let_def empty_database_def ann_database_def)

section \<open>The handlers' preconditions\<close>

text \<open>
  C1. \<^verbatim>\<open>createUser\<close> checks its three preconditions in order and answers with the
  error of the first one that is violated: a name or an email that is absent or empty
  gives "All fields are required"; otherwise a name that is empty after trimming gives
  "Name cannot be empty"; otherwise an email that does not match the pattern gives
  "Invalid email format". The store is not touched. When no precondition is violated
  the answer is not an \<open>INVALID_ARGUMENT\<close> error.
\<close>

theorem createUser_first_violated_precondition:
  "((name = None \<or> name = Some [] \<or> email = None \<or> email = Some []) \<longrightarrow>
      createUser fault name email s =
        (Inl (ServiceError INVALID_ARGUMENT ''All fields are required''), s))
   \<and> (\<forall>n e. name = Some n \<and> email = Some e \<and> n \<noteq> [] \<and> e \<noteq> [] \<and> trim n = [] \<longrightarrow>
      createUser fault name email s =
        (Inl (ServiceError INVALID_ARGUMENT ''Name cannot be empty''), s))
   \<and> (\<forall>n e. name = Some n \<and> email = Some e \<and> n \<noteq> [] \<and> e \<noteq> [] \<and> trim n \<noteq> []
          \<and> \<not> isValidEmail e \<longrightarrow>
      createUser fault name email s =
        (Inl (ServiceError INVALID_ARGUMENT ''Invalid email format''), s))
   \<and> (\<forall>n e. name = Some n \<and> email = Some e \<and> n \<noteq> [] \<and> e \<noteq> [] \<and> trim n \<noteq> []
          \<and> isValidEmail e \<longrightarrow>
      (\<forall>m. fst (createUser fault name email s) \<noteq> Inl (ServiceError INVALID_ARGUMENT m)))"
  by (auto simp: createUser_def falsy_def split: option.splits prod.splits sum.splits list.splits)

theorem createUser_first_violated_precondition_witness:
  "createUser None None (Some ''Ann@X.org'') empty_database =
     (Inl (ServiceError INVALID_ARGUMENT ''All fields are required''), empty_database)
   \<and> createUser None (Some ''  '') (Some ''not-an-email'') empty_database =
     (Inl (ServiceError INVALID_ARGUMENT ''Name cannot be empty''), empty_database)
   \<and> createUser None (Some ''Ann'') (Some ''not-an-email'') empty_database =
     (Inl (ServiceError INVALID_ARGUMENT ''Invalid email format''), empty_database)
   \<and> fst (createUser None (Some ''Ann'') (Some ''Ann@X.org'') empty_database) \<noteq>
       Inl (ServiceError INVALID_ARGUMENT ''Invalid email format'')"
proof -
  have a: "createUser None None (Some ''Ann@X.org'') empty_database =
     (Inl (ServiceError INVALID_ARGUMENT ''All fields are required''), empty_database)"
    using createUser_first_violated_precondition [of None "Some ''Ann@X.org''" None empty_database]
    by simp
  have b: "createUser None (Some ''  '') (Some ''not-an-email'') empty_database =
     (Inl (ServiceError INVALID_ARGUMENT ''Name cannot be empty''), empty_database)"
    using createUser_first_violated_precondition
      [of "Some ''  ''" "Some ''not-an-email''" None empty_database] trim_blank
    by simp
  have c: "createUser None (Some ''Ann'') (Some ''not-an-email'') empty_database =
     (Inl (ServiceError INVALID_ARGUMENT ''Invalid email format''), empty_database)"
    using createUser_first_violated_precondition
      [of "Some ''Ann''" "Some ''not-an-email''" None empty_database] trim_Ann invalid_not_an_email
    by simp
  have d: "fst (createUser None (Some ''Ann'') (Some ''Ann@X.org'') empty_database) \<noteq>
       Inl (ServiceError INVALID_ARGUMENT ''Invalid email format'')"
    using createUser_first_violated_precondition
      [of "Some ''Ann''" "Some ''Ann@X.org''" None empty_database] trim_Ann valid_ann
    by simp
  from a b c d show ?thesis by blast
qed

text \<open>
  C7. When \<^verbatim>\<open>createUser\<close> fails validation (a name or an email that is absent or
  empty, a name that is blank, an email that does not match the pattern), the answer
  is an \<open>INVALID_ARGUMENT\<close> error and the store is exactly as before: no statement was
  handed to \<^verbatim>\<open>pool.query\<close>, the number of rows is the same, and the same call made
  again gives the same answer, whatever the environment would do to a query.
\<close>

theorem createUser_validation_failure_leaves_store:
  assumes "falsy name \<or> falsy email \<or> (\<exists>n. name = Some n \<and> trim n = [])
             \<or> (\<exists>e. email = Some e \<and> \<not> isValidEmail e)"
  shows "(\<exists>m. fst (createUser fault name email s) = Inl (ServiceError INVALID_ARGUMENT m))
    \<and> snd (createUser fault name email s) = s
    \<and> issued (snd (createUser fault name email s)) = issued s
    \<and> length (users (snd (createUser fault name email s))) = length (users s)
    \<and> createUser fault' name email (snd (createUser fault name email s)) =
        createUser fault name email s"
  using assms by (auto simp: createUser_def)

theorem createUser_validation_failure_leaves_store_witness:
  "\<not> isValidEmail ''not-an-email''
   \<and> (\<exists>m. fst (createUser None (Some ''Ann'') (Some ''not-an-email'') ann_database) =
             Inl (ServiceError INVALID_ARGUMENT m))
   \<and> snd (createUser None (Some ''Ann'') (Some ''not-an-email'') ann_database) = ann_database
   \<and> issued (snd (createUser None (Some ''Ann'') (Some ''not-an-email'') ann_database)) =
       issued ann_database
   \<and> length (users (snd (createUser None (Some ''Ann'') (Some ''not-an-email'') ann_database))) =
       length (users ann_database)
   \<and> createUser (Some (JsError None ''no connection'')) (Some ''Ann'') (Some ''not-an-email'')
        (snd (createUser None (Some ''Ann'') (Some ''not-an-email'') ann_database)) =
      createUser None (Some ''Ann'') (Some ''not-an-email'') ann_database"
proof -
  have h: "falsy (Some ''Ann'') \<or> falsy (Some ''not-an-email'')
      \<or> (\<exists>n. Some ''Ann'' = Some n \<and> trim n = [])
      \<or> (\<exists>e. Some ''not-an-email'' = Some e \<and> \<not> isValidEmail e)"
    using invalid_not_an_email by simp
  from createUser_validation_failure_leaves_store
      [OF h, of None ann_database "Some (JsError None ''no connection'')"] invalid_not_an_email
  show ?thesis by blast
qed

text \<open>
  C5. \<^verbatim>\<open>deleteUser\<close> with an absent id or the id 0 answers \<open>INVALID_ARGUMENT\<close> "User ID
  is required" and hands nothing to the store. With another id, and a store that runs
  the statement: when no row has the id the answer is \<open>NOT_FOUND\<close> "User with ID <id>
  not found" and the rows stay; when a row has it, the rows with that id are removed,
  under no further condition, and the answer is the confirmation with
  \<open>success = true\<close> and the message "User with ID <id> successfully deleted".
\<close>

theorem deleteUser_outcomes:
  "((rid = None \<or> rid = Some 0) \<longrightarrow>
      deleteUser fault rid s = (Inl (ServiceError INVALID_ARGUMENT ''User ID is required''), s))
   \<and> (\<forall>i. rid = Some i \<and> i \<noteq> 0 \<and> sint i \<notin> user_id ` set (users s) \<longrightarrow>
      deleteUser None rid s =
        (Inl (ServiceError NOT_FOUND (''User with ID '' @ string_of_int (sint i) @ '' not found'')),
         s\<lparr>issued := issued s @ [DeleteUserById (sint i)]\<rparr>))
   \<and> (\<forall>i. rid = Some i \<and> i \<noteq> 0 \<and> sint i \<in> user_id ` set (users s) \<longrightarrow>
      deleteUser None rid s =
        (Inr (DeleteUserResponse True
               (''User with ID '' @ string_of_int (sint i) @ '' successfully deleted'')),
         s\<lparr>users := filter (\<lambda>r. user_id r \<noteq> sint i) (users s),
           issued := issued s @ [DeleteUserById (sint i)]\<rparr>))"
  by (auto simp: deleteUser_def pool_query_None sql_delete_def filter_user_id_empty
        filter_user_id_absent)

theorem deleteUser_outcomes_witness:
  "deleteUser None (Some 0) ann_database =
     (Inl (ServiceError INVALID_ARGUMENT ''User ID is required''), ann_database)
   \<and> deleteUser None (Some 999999) ann_database =
     (Inl (ServiceError NOT_FOUND ''User with ID 999999 not found''),
      ann_database\<lparr>issued := issued ann_database @ [DeleteUserById 999999]\<rparr>)
   \<and> deleteUser None (Some 1) ann_database =
     (Inr (DeleteUserResponse True ''User with ID 1 successfully deleted''),
      ann_database\<lparr>users := [], issued := issued ann_database @ [DeleteUserById 1]\<rparr>)"
proof -
  have s1: "string_of_int 999999 = ''999999''"
    by (simp add: string_of_int_def string_of_nat.simps)
  have s2: "string_of_int 1 = ''1''"
    by (simp add: string_of_int_def string_of_nat.simps)
  have w1: "sint (999999 :: 32 word) = 999999" by simp
  have w2: "sint (1 :: 32 word) = 1" by simp
  have u: "users ann_database = [\<lparr>user_id = 1, user_name = ''Ann'', user_email = ''ann@x.org''\<rparr>]"
    by (simp add: ann_database_def)
  have a: "deleteUser None (Some 0) ann_database =
     (Inl (ServiceError INVALID_ARGUMENT ''User ID is required''), ann_database)"
    using deleteUser_outcomes [of "Some 0" None ann_database] by simp
  have b: "deleteUser None (Some 999999) ann_database =
     (Inl (ServiceError NOT_FOUND ''User with ID 999999 not found''),
      ann_database\<lparr>issued := issued ann_database @ [DeleteUserById 999999]\<rparr>)"
    using deleteUser_outcomes [of "Some 999999" None ann_database] s1 w1 u by simp
  have c: "deleteUser None (Some 1) ann_database =
     (Inr (DeleteUserResponse True ''User with ID 1 successfully deleted''),
      ann_database\<lparr>users := [], issued := issued ann_database @ [DeleteUserById 1]\<rparr>)"
    using deleteUser_outcomes [of "Some 1" None ann_database] s2 w2 u by simp
  from a b c show ?thesis by blast
qed

text \<open>
  C9. The presence check of \<^verbatim>\<open>deleteUser\<close> lets every id other than 0 through,
  negative ones too: for such an id the answer is never an \<open>INVALID_ARGUMENT\<close> error,
  whatever the store does, and when the store runs the statement and no row has the id
  the answer is \<open>NOT_FOUND\<close>.
\<close>

theorem deleteUser_nonzero_id_passes:
  assumes "i \<noteq> 0"
  shows "(\<forall>m. fst (deleteUser fault (Some i) s) \<noteq> Inl (ServiceError INVALID_ARGUMENT m))
    \<and> (sint i \<notin> user_id ` set (users s) \<longrightarrow>
         fst (deleteUser None (Some i) s) =
           Inl (ServiceError NOT_FOUND (''User with ID '' @ string_of_int (sint i) @ '' not found'')))"
  using assms
  by (cases fault)
    (auto simp: deleteUser_def pool_query_None pool_query_Some sql_delete_def filter_user_id_empty)

theorem deleteUser_nonzero_id_passes_witness:
  "(- 5 :: 32 word) \<noteq> 0 \<and> sint (- 5 :: 32 word) < 0
   \<and> sint (- 5 :: 32 word) \<notin> user_id ` set (users ann_database)
   \<and> (\<forall>m. fst (deleteUser None (Some (- 5)) ann_database) \<noteq> Inl (ServiceError INVALID_ARGUMENT m))
   \<and> fst (deleteUser None (Some (- 5)) ann_database) =
       Inl (ServiceError NOT_FOUND ''User with ID -5 not found'')"
proof -
  have nz: "(- 5 :: 32 word) \<noteq> 0" by simp
  have sg: "sint (- 5 :: 32 word) = - 5" by simp
  have st: "string_of_int (- 5) = ''-5''"
    by (simp add: string_of_int_def string_of_nat.simps)
  have ab: "sint (- 5 :: 32 word) \<notin> user_id ` set (users ann_database)"
    by (simp add: ann_database_def)
  from deleteUser_nonzero_id_passes [OF nz, of None ann_database] ab
  have "fst (deleteUser None (Some (- 5)) ann_database) =
       Inl (ServiceError NOT_FOUND (''User with ID '' @ string_of_int (sint (- 5 :: 32 word)) @ '' not found''))"
    and "\<forall>m. fst (deleteUser None (Some (- 5)) ann_database) \<noteq> Inl (ServiceError INVALID_ARGUMENT m)"
    by blast+
  with nz sg st ab show ?thesis by simp
qed

section \<open>Error classification\<close>

lemma createUser_classified:
  "case fst (createUser fault name email s) of
     Inr u \<Rightarrow> True
   | Inl e \<Rightarrow> e = ServiceError INVALID_ARGUMENT ''All fields are required''
            \<or> e = ServiceError INVALID_ARGUMENT ''Name cannot be empty''
            \<or> e = ServiceError INVALID_ARGUMENT ''Invalid email format''
            \<or> e = ServiceError ALREADY_EXISTS ''User with this email already exists''
            \<or> e = ServiceError INTERNAL ''Failed to create user''"
  by (auto simp: createUser_def split: sum.splits prod.splits list.splits)

lemma getUsers_classified:
  "case fst (getUsers fault name_filter s) of
     Inr us \<Rightarrow> True
   | Inl e \<Rightarrow> e = ServiceError INTERNAL ''Failed to retrieve users''"
  by (auto simp: getUsers_def split: sum.splits prod.splits)

lemma deleteUser_classified:
  "case fst (deleteUser fault rid s) of
     Inr d \<Rightarrow> True
   | Inl e \<Rightarrow> e = ServiceError INVALID_ARGUMENT ''User ID is required''
            \<or> e = ServiceError NOT_FOUND
                    (''User with ID '' @ string_of_int (sint (the rid)) @ '' not found'')
            \<or> e = ServiceError INTERNAL ''Failed to delete user''"
  by (auto simp: deleteUser_def split: sum.splits prod.splits)

lemma createUser_fault_code_only:
  assumes "(err_code err = Some ''23505'') = (err_code err' = Some ''23505'')"
  shows "createUser (Some err) name email s = createUser (Some err') name email s"
  using assms by (simp add: createUser_def pool_query_Some)

lemma getUsers_fault_hidden:
  "getUsers (Some err) name_filter s = getUsers (Some err') name_filter s"
  by (simp add: getUsers_def pool_query_Some)

lemma deleteUser_fault_hidden:
  "deleteUser (Some err) rid s = deleteUser (Some err') rid s"
  by (simp add: deleteUser_def pool_query_Some)

text \<open>
  C6. Whatever the request, the state of the store and the behaviour of the
  environment, what a handler passes to its callback is a response or an error whose
  code is one of \<open>INVALID_ARGUMENT\<close>, \<open>ALREADY_EXISTS\<close>, \<open>NOT_FOUND\<close> and \<open>INTERNAL\<close>,
  and of the error of a failed query nothing reaches the answer but whether its code is
  23505. When the query of \<^verbatim>\<open>createUser\<close> fails with a code other than 23505 the
  answer is \<open>INTERNAL\<close> "Failed to create user"; when the query of \<^verbatim>\<open>getUsers\<close> fails
  it is \<open>INTERNAL\<close> "Failed to retrieve users"; when the query of \<^verbatim>\<open>deleteUser\<close>
  fails it is \<open>INTERNAL\<close> "Failed to delete user".
\<close>

theorem handlers_classify_store_errors:
  "(case fst (serve fault req s) of
      Inr r \<Rightarrow> True
    | Inl e \<Rightarrow> code e \<in> {INVALID_ARGUMENT, ALREADY_EXISTS, NOT_FOUND, INTERNAL})
   \<and> (\<forall>err err'. (err_code err = Some ''23505'') = (err_code err' = Some ''23505'') \<longrightarrow>
        serve (Some err) req s = serve (Some err') req s)
   \<and> (\<forall>n e err. \<not> falsy (Some n) \<and> \<not> falsy (Some e) \<and> trim n \<noteq> [] \<and> isValidEmail e
         \<and> fst (pool_query fault (InsertUser (trim n) (toLowerCase e))
                  (sql_insert (trim n) (toLowerCase e)) s) = Inl err
         \<and> err_code err \<noteq> Some ''23505'' \<longrightarrow>
        fst (createUser fault (Some n) (Some e) s) =
          Inl (ServiceError INTERNAL ''Failed to create user''))
   \<and> (\<forall>err. fst (getUsers (Some err) name_filter s) =
          Inl (ServiceError INTERNAL ''Failed to retrieve users''))
   \<and> (\<forall>i err. i \<noteq> 0 \<longrightarrow>
        fst (deleteUser (Some err) (Some i) s) =
          Inl (ServiceError INTERNAL ''Failed to delete user''))"
proof (intro conjI allI impI)
  show "case fst (serve fault req s) of
      Inr r \<Rightarrow> True
    | Inl e \<Rightarrow> code e \<in> {INVALID_ARGUMENT, ALREADY_EXISTS, NOT_FOUND, INTERNAL}"
  proof (cases req)
    case (CreateUser name email)
    then show ?thesis
      using createUser_classified [where fault = fault and name = name and email = email and s = s]
      by (auto simp: serve_def split: sum.splits)
  next
    case (GetUsers name_filter)
    then show ?thesis
      using getUsers_classified [where fault = fault and name_filter = name_filter and s = s]
      by (auto simp: serve_def split: sum.splits)
  next
    case (DeleteUser rid)
    then show ?thesis
      using deleteUser_classified [where fault = fault and rid = rid and s = s]
      by (auto simp: serve_def split: sum.splits)
  qed
next
  fix err err'
  assume "(err_code err = Some ''23505'') = (err_code err' = Some ''23505'')"
  then show "serve (Some err) req s = serve (Some err') req s"
    by (cases req)
      (simp_all add: serve_def createUser_fault_code_only [of err err']
        getUsers_fault_hidden [of err _ _ err'] deleteUser_fault_hidden [of err _ _ err'])
next
  fix n e err
  assume "\<not> falsy (Some n) \<and> \<not> falsy (Some e) \<and> trim n \<noteq> [] \<and> isValidEmail e
         \<and> fst (pool_query fault (InsertUser (trim n) (toLowerCase e))
                  (sql_insert (trim n) (toLowerCase e)) s) = Inl err
         \<and> err_code err \<noteq> Some ''23505''"
  then show "fst (createUser fault (Some n) (Some e) s) =
          Inl (ServiceError INTERNAL ''Failed to create user'')"
    by (auto simp: createUser_def split: prod.splits sum.splits)
next
  fix err
  show "fst (getUsers (Some err) name_filter s) =
          Inl (ServiceError INTERNAL ''Failed to retrieve users'')"
    by (simp add: getUsers_def pool_query_Some)
next
  fix i :: "32 word" and err
  assume "i \<noteq> 0"
  then show "fst (deleteUser (Some err) (Some i) s) =
          Inl (ServiceError INTERNAL ''Failed to delete user'')"
    by (simp add: deleteUser_def pool_query_Some)
qed

theorem handlers_classify_store_errors_witness:
  "fst (createUser (Some (JsError (Some ''ECONNREFUSED'') ''connect ECONNREFUSED''))
         (Some ''Ann'') (Some ''Ann@X.org'') ann_database) =
     Inl (ServiceError INTERNAL ''Failed to create user'')
   \<and> fst (getUsers (Some (JsError (Some ''ECONNREFUSED'') ''connect ECONNREFUSED''))
           (Some ''Ann'') ann_database) =
     Inl (ServiceError INTERNAL ''Failed to retrieve users'')
   \<and> fst (deleteUser (Some (JsError (Some ''ECONNREFUSED'') ''connect ECONNREFUSED''))
           (Some 1) ann_database) =
     Inl (ServiceError INTERNAL ''Failed to delete user'')
   \<and> (case fst (serve (Some (JsError (Some ''ECONNREFUSED'') ''connect ECONNREFUSED''))
                  (DeleteUser (Some 1)) ann_database) of
        Inr r \<Rightarrow> True
      | Inl e \<Rightarrow> code e \<in> {INVALID_ARGUMENT, ALREADY_EXISTS, NOT_FOUND, INTERNAL})
   \<and> serve (Some (JsError (Some ''ECONNREFUSED'') ''connect ECONNREFUSED''))
        (DeleteUser (Some 1)) ann_database =
     serve (Some (JsError (Some ''57P01'') ''terminating connection due to administrator command''))
        (DeleteUser (Some 1)) ann_database"
proof -
  let ?err = "JsError (Some ''ECONNREFUSED'') ''connect ECONNREFUSED''"
  let ?err' = "JsError (Some ''57P01'') ''terminating connection due to administrator command''"
  note th = handlers_classify_store_errors
    [of "Some ?err" "DeleteUser (Some 1)" ann_database "Some ''Ann''"]
  have q: "fst (pool_query (Some ?err) (InsertUser (trim ''Ann'') (toLowerCase ''Ann@X.org''))
                  (sql_insert (trim ''Ann'') (toLowerCase ''Ann@X.org'')) ann_database) = Inl ?err"
    by (simp add: pool_query_Some)
  have c: "err_code ?err \<noteq> Some ''23505''" by simp
  have f: "\<not> falsy (Some ''Ann'')" "\<not> falsy (Some ''Ann@X.org'')" "trim ''Ann'' \<noteq> []"
    by (simp_all add: falsy_def trim_Ann)
  have a: "fst (createUser (Some ?err) (Some ''Ann'') (Some ''Ann@X.org'') ann_database) =
     Inl (ServiceError INTERNAL ''Failed to create user'')"
    using th q c f valid_ann by blast
  have b: "fst (getUsers (Some ?err) (Some ''Ann'') ann_database) =
     Inl (ServiceError INTERNAL ''Failed to retrieve users'')"
    using th by blast
  have d: "fst (deleteUser (Some ?err) (Some 1) ann_database) =
     Inl (ServiceError INTERNAL ''Failed to delete user'')"
    using th by simp
  have e: "case fst (serve (Some ?err) (DeleteUser (Some 1)) ann_database) of
        Inr r \<Rightarrow> True
      | Inl e \<Rightarrow> code e \<in> {INVALID_ARGUMENT, ALREADY_EXISTS, NOT_FOUND, INTERNAL}"
    using th by blast
  have k: "(err_code ?err = Some ''23505'') = (err_code ?err' = Some ''23505'')" by simp
  have g: "serve (Some ?err) (DeleteUser (Some 1)) ann_database =
     serve (Some ?err') (DeleteUser (Some 1)) ann_database"
    using th k by blast
  from a b d e g show ?thesis by blast
qed

section \<open>Characters and strings\<close>

lemma char_eq_of_char: "(c = d) = ((of_char c :: nat) = of_char d)"
  by simp

lemma isWhiteSpace_of_char: "isWhiteSpace c = (of_char c \<in> {9, 10, 11, 12, 13, 32, 160 :: nat})"
  unfolding isWhiteSpace_def by (simp add: char_eq_of_char del: of_char_eq_iff)

lemma of_char_lt: "(of_char c :: nat) < 256"
  by simp

lemma isWhiteSpace_toLowerCase_char: "isWhiteSpace (toLowerCase_char c) = isWhiteSpace c"
  using of_char_lt [of c]
  by (auto simp: isWhiteSpace_of_char toLowerCase_char_def Let_def)

lemma toLowerCase_char_idem: "toLowerCase_char (toLowerCase_char c) = toLowerCase_char c"
  by (simp add: toLowerCase_char_def Let_def)

lemma toLowerCase_idem: "toLowerCase (toLowerCase v) = toLowerCase v"
  by (simp add: toLowerCase_def toLowerCase_char_idem)

lemma no_space_toLowerCase:
  "list_all (\<lambda>c. \<not> isWhiteSpace c) (toLowerCase v) = list_all (\<lambda>c. \<not> isWhiteSpace c) v"
  by (simp add: toLowerCase_def list_all_iff isWhiteSpace_toLowerCase_char)

lemma trim_Nil: "trim [] = []"
  by (simp add: trim_def)

text \<open>
  \<^verbatim>\<open>trim\<close> cuts whitespace off both ends and nothing else: what is left neither
  starts nor ends with whitespace.
\<close>

lemma trim_shape:
  "\<exists>p q. v = p @ trim v @ q \<and> list_all isWhiteSpace p \<and> list_all isWhiteSpace q
     \<and> (trim v = [] \<or> (\<not> isWhiteSpace (hd (trim v)) \<and> \<not> isWhiteSpace (last (trim v))))"
proof -
  let ?w = "dropWhile isWhiteSpace v"
  let ?p = "takeWhile isWhiteSpace v"
  let ?q = "rev (takeWhile isWhiteSpace (rev ?w))"
  have t: "trim v = rev (dropWhile isWhiteSpace (rev ?w))"
    by (simp add: trim_def)
  have "rev (takeWhile isWhiteSpace (rev ?w) @ dropWhile isWhiteSpace (rev ?w)) = rev (rev ?w)"
    by (simp only: takeWhile_dropWhile_id)
  then have "rev (dropWhile isWhiteSpace (rev ?w)) @ ?q = ?w"
    by (simp only: rev_append rev_rev_ident)
  then have w: "?w = trim v @ ?q"
    by (simp only: t)
  have v: "v = ?p @ trim v @ ?q"
    using w takeWhile_dropWhile_id [of isWhiteSpace v] by simp
  have p: "list_all isWhiteSpace ?p"
    by (auto simp: list_all_iff dest: set_takeWhileD)
  have q: "list_all isWhiteSpace ?q"
    by (auto simp: list_all_iff dest: set_takeWhileD)
  have e: "\<not> isWhiteSpace (hd (trim v)) \<and> \<not> isWhiteSpace (last (trim v))" if ne: "trim v \<noteq> []"
  proof
    from ne w have "?w \<noteq> []" by (metis append_is_Nil_conv)
    then have "\<not> isWhiteSpace (hd ?w)" by (rule hd_dropWhile)
    moreover from ne w have "hd ?w = hd (trim v)" by (metis hd_append2)
    ultimately show "\<not> isWhiteSpace (hd (trim v))" by simp
    from ne t have "dropWhile isWhiteSpace (rev ?w) \<noteq> []" by simp
    then have "\<not> isWhiteSpace (hd (dropWhile isWhiteSpace (rev ?w)))" by (rule hd_dropWhile)
    then show "\<not> isWhiteSpace (last (trim v))"
      using ne by (simp add: t last_rev)
  qed
  from v p q e show ?thesis by blast
qed

section \<open>The matcher\<close>

text \<open>The matcher by derivatives decides the meaning of the regular expression.\<close>

inductive_simps matches_Zero: "matches Zero v"
inductive_simps matches_One: "matches One v"
inductive_simps matches_Atom: "matches (Atom p) v"
inductive_simps matches_Alt: "matches (Alt r s) v"
inductive_simps matches_Seq: "matches (Seq r s) v"

lemma nullable_matches: "nullable r = matches r []"
  by (induction r) (auto simp: matches_Zero matches_One matches_Atom matches_Alt matches_Seq intro: StarNil)

lemma matches_Star_first:
  assumes "matches (Star r) z" and "z \<noteq> []"
  shows "\<exists>u w. z = u @ w \<and> u \<noteq> [] \<and> matches r u \<and> matches (Star r) w"
  using assms
proof (induction "Star r" z rule: matches.induct)
  case StarNil
  then show ?case by simp
next
  case (StarStep u w)
  show ?case
  proof (cases "u = []")
    case True
    with StarStep show ?thesis by simp
  next
    case False
    with StarStep show ?thesis by blast
  qed
qed

lemma deriv_matches: "matches (deriv c r) v = matches r (c # v)"
proof (induction r arbitrary: v)
  case Zero
  then show ?case by (simp add: matches_Zero)
next
  case One
  then show ?case by (simp add: matches_Zero matches_One)
next
  case (Atom p)
  then show ?case by (auto simp: matches_Zero matches_One matches_Atom)
next
  case (Alt r s)
  then show ?case by (simp add: matches_Alt)
next
  case (Seq r s)
  then show ?case
    by (auto simp: matches_Alt matches_Seq nullable_matches Cons_eq_append_conv)
next
  case (Star r)
  show ?case
  proof
    assume "matches (deriv c (Star r)) v"
    then obtain u w where "v = u @ w" "matches (deriv c r) u" "matches (Star r) w"
      by (auto simp: matches_Seq)
    with Star have "matches r (c # u)" by simp
    then have "matches (Star r) ((c # u) @ w)" using \<open>matches (Star r) w\<close> by (rule StarStep)
    with \<open>v = u @ w\<close> show "matches (Star r) (c # v)" by simp
  next
    assume "matches (Star r) (c # v)"
    from matches_Star_first [OF this]
    obtain u w where uw: "c # v = u @ w" "u \<noteq> []" "matches r u" "matches (Star r) w"
      by auto
    then obtain u' where u: "u = c # u'" "v = u' @ w"
      by (cases u) auto
    with uw Star have "matches (deriv c r) u'" by simp
    with uw(4) u(2) show "matches (deriv c (Star r)) v"
      by (auto simp: matches_Seq)
  qed
qed

lemma regex_test_matches: "regex_test r v = matches r v"
  by (induction v arbitrary: r) (simp_all add: nullable_matches deriv_matches)

lemma matches_Star_Atom: "matches (Star (Atom p)) v = list_all p v"
proof
  assume "matches (Star (Atom p)) v"
  then show "list_all p v"
    by (induction "Star (Atom p)" v rule: matches.induct) (auto simp: matches_Atom)
next
  assume "list_all p v"
  then show "matches (Star (Atom p)) v"
  proof (induction v)
    case Nil
    show ?case by (rule StarNil)
  next
    case (Cons c cs)
    then have "matches (Atom p) [c]" and "matches (Star (Atom p)) cs"
      by (auto intro: matches.Atom)
    then have "matches (Star (Atom p)) ([c] @ cs)" by (rule StarStep)
    then show ?case by simp
  qed
qed

lemma matches_Plus_Atom: "matches (Plus (Atom p)) v = (v \<noteq> [] \<and> list_all p v)"
proof -
  have "matches (Plus (Atom p)) v = (\<exists>c w. v = [c] @ w \<and> p c \<and> list_all p w)"
    unfolding Plus_def matches_Seq matches_Atom matches_Star_Atom by blast
  also have "\<dots> = (v \<noteq> [] \<and> list_all p v)"
    by (cases v) auto
  finally show ?thesis .
qed

text \<open>
  What the pattern of \<^verbatim>\<open>isValidEmail\<close> accepts: a local part, an at sign, a domain part,
  a dot and a last part, the three parts not empty and made of characters that are
  neither whitespace nor at signs.
\<close>

lemma isValidEmail_shape:
  "isValidEmail email =
     (\<exists>l d t. email = l @ ''@'' @ d @ ''.'' @ t
        \<and> l \<noteq> [] \<and> d \<noteq> [] \<and> t \<noteq> []
        \<and> list_all notSpaceAt l \<and> list_all notSpaceAt d \<and> list_all notSpaceAt t)"
  unfolding isValidEmail_def regex_test_matches emailRegex_def
  by (simp add: matches_Seq matches_Atom matches_Plus_Atom) blast

lemma not_valid_Nil: "\<not> isValidEmail []"
  by (simp add: isValidEmail_shape)

lemma valid_email_no_space:
  assumes "isValidEmail e"
  shows "list_all (\<lambda>c. \<not> isWhiteSpace c) e"
proof -
  from assms obtain l d t where e: "e = l @ ''@'' @ d @ ''.'' @ t"
    and parts: "list_all notSpaceAt l" "list_all notSpaceAt d" "list_all notSpaceAt t"
    unfolding isValidEmail_shape by blast
  have ns: "list_all (\<lambda>c. \<not> isWhiteSpace c) v" if "list_all notSpaceAt v" for v
    using that by (simp add: list_all_iff notSpaceAt_def)
  have "\<not> isWhiteSpace CHR ''@''" and "\<not> isWhiteSpace CHR ''.''"
    by (simp_all add: isWhiteSpace_def)
  with ns [OF parts(1)] ns [OF parts(2)] ns [OF parts(3)] show ?thesis
    unfolding e by simp
qed


section \<open>Validation and letter case\<close>

lemma toLowerCase_char_eq_at: "(toLowerCase_char c = CHR ''@'') = (c = CHR ''@'')"
  using of_char_lt [of c]
  by (auto simp: toLowerCase_char_def Let_def char_eq_of_char [of _ "CHR ''@''"]
      simp del: of_char_eq_iff)

lemma toLowerCase_char_eq_dot: "(toLowerCase_char c = CHR ''.'') = (c = CHR ''.'')"
  using of_char_lt [of c]
  by (auto simp: toLowerCase_char_def Let_def char_eq_of_char [of _ "CHR ''.''"]
      simp del: of_char_eq_iff)

lemma notSpaceAt_toLowerCase_char: "notSpaceAt (toLowerCase_char c) = notSpaceAt c"
  by (simp add: notSpaceAt_def isWhiteSpace_toLowerCase_char toLowerCase_char_eq_at)

lemma deriv_atoms_respect:
  "atoms_all (\<lambda>p. \<forall>c. p (f c) = p c) r \<Longrightarrow> deriv (f c) r = deriv c r"
  by (induction r) auto

lemma atoms_all_deriv: "atoms_all Q r \<Longrightarrow> atoms_all Q (deriv c r)"
  by (induction r) auto

lemma regex_test_map:
  "atoms_all (\<lambda>p. \<forall>c. p (f c) = p c) r \<Longrightarrow> regex_test r (map f v) = regex_test r v"
proof (induction v arbitrary: r)
  case Nil
  then show ?case by simp
next
  case (Cons c cs)
  from Cons.prems have "atoms_all (\<lambda>p. \<forall>c. p (f c) = p c) (deriv c r)"
    by (rule atoms_all_deriv)
  then have "regex_test (deriv c r) (map f cs) = regex_test (deriv c r) cs"
    by (rule Cons.IH)
  with Cons.prems show ?case
    by (simp add: deriv_atoms_respect)
qed

text \<open>Whether an email passes validation does not depend on the case of its letters.\<close>

lemma isValidEmail_toLowerCase: "isValidEmail (toLowerCase e) = isValidEmail e"
proof -
  have "atoms_all (\<lambda>p. \<forall>c. p (toLowerCase_char c) = p c) emailRegex"
    by (simp add: emailRegex_def Plus_def notSpaceAt_toLowerCase_char toLowerCase_char_eq_at
        toLowerCase_char_eq_dot)
  then show ?thesis
    unfolding isValidEmail_def toLowerCase_def by (rule regex_test_map)
qed

section \<open>What the statements do to the store\<close>

lemma varchar255_fits: "length v \<le> 255 \<Longrightarrow> varchar255 v = Some v"
  by (simp add: varchar255_def)

lemma drop_not_all:
  assumes "k < length v" and "last v \<noteq> c"
  shows "\<not> list_all (\<lambda>x. x = c) (drop k v)"
proof -
  from assms(1) have ne: "drop k v \<noteq> []" by simp
  with assms(1) have "last (drop k v) = last v" by (simp add: last_drop)
  with assms(2) have "last (drop k v) \<noteq> c" by simp
  moreover from ne have "last (drop k v) \<in> set (drop k v)" by (rule last_in_set)
  ultimately show ?thesis by (auto simp: list_all_iff)
qed

lemma varchar255_last_not_space:
  assumes "255 < length v" and "last v \<noteq> CHR '' ''"
  shows "varchar255 v = None"
  using assms drop_not_all [of 255 v "CHR '' ''"]
  by (simp add: varchar255_def)

text \<open>A trimmed name and a lowercased valid email are stored whole or not at all.\<close>

lemma varchar255_trim:
  "varchar255 (trim n) = (if length (trim n) \<le> 255 then Some (trim n) else None)"
proof (cases "length (trim n) \<le> 255")
  case True
  then show ?thesis by (simp add: varchar255_fits)
next
  case False
  then have "trim n \<noteq> []" by auto
  with trim_shape [of n] have "\<not> isWhiteSpace (last (trim n))" by blast
  then have "last (trim n) \<noteq> CHR '' ''" by (auto simp: isWhiteSpace_def)
  with False show ?thesis by (simp add: varchar255_last_not_space)
qed

lemma varchar255_valid_email:
  assumes "isValidEmail e"
  shows "varchar255 (toLowerCase e) =
    (if length (toLowerCase e) \<le> 255 then Some (toLowerCase e) else None)"
proof (cases "length (toLowerCase e) \<le> 255")
  case True
  then show ?thesis by (simp add: varchar255_fits)
next
  case False
  then have ne: "toLowerCase e \<noteq> []" by auto
  from valid_email_no_space [OF assms]
  have "list_all (\<lambda>c. \<not> isWhiteSpace c) (toLowerCase e)"
    by (simp add: no_space_toLowerCase)
  with ne have "\<not> isWhiteSpace (last (toLowerCase e))"
    by (metis last_in_set list_all_iff)
  then have "last (toLowerCase e) \<noteq> CHR '' ''" by (auto simp: isWhiteSpace_def)
  with False show ?thesis by (simp add: varchar255_last_not_space)
qed

lemma createUser_invalid:
  "falsy name \<or> falsy email \<or> trim (the name) = [] \<or> \<not> isValidEmail (the email) \<Longrightarrow>
     snd (createUser fault name email s) = s
     \<and> (\<exists>err. fst (createUser fault name email s) = Inl err)"
  by (auto simp: createUser_def)

lemma createUser_valid:
  "trim n \<noteq> [] \<Longrightarrow> isValidEmail e \<Longrightarrow>
     createUser fault (Some n) (Some e) s =
       (case pool_query fault (InsertUser (trim n) (toLowerCase e))
               (sql_insert (trim n) (toLowerCase e)) s of
          (Inr rows, s') \<Rightarrow>
            (case rows of
               row # _ \<Rightarrow> (Inr row, s')
             | [] \<Rightarrow> (Inl (ServiceError INTERNAL ''Failed to create user''), s'))
        | (Inl err, s') \<Rightarrow>
            if err_code err = Some ''23505''
            then (Inl (ServiceError ALREADY_EXISTS ''User with this email already exists''), s')
            else (Inl (ServiceError INTERNAL ''Failed to create user''), s'))"
  by (auto simp: createUser_def falsy_def trim_Nil not_valid_Nil)

text \<open>
  The answer of \<^verbatim>\<open>createUser\<close> to a request that passes validation, when the store runs
  the insert: \<open>INTERNAL\<close> when the trimmed name or the lowercased email is not a text or
  is longer than its column, and then the sequence has not moved; else \<open>ALREADY_EXISTS\<close>
  when a row has the sequence's value as id or the lowercased email as email; else the
  new record.
\<close>

lemma createUser_answer:
  assumes "trim n \<noteq> []" and "isValidEmail e"
  shows "createUser None (Some n) (Some e) s =
    (if pg_text (trim n) \<and> pg_text (toLowerCase e)
        \<and> length (trim n) \<le> 255 \<and> length (toLowerCase e) \<le> 255 then
       if \<exists>r \<in> set (users s). user_id r = next_id s \<or> user_email r = toLowerCase e
       then (Inl (ServiceError ALREADY_EXISTS ''User with this email already exists''),
             s\<lparr>issued := issued s @ [InsertUser (trim n) (toLowerCase e)],
               next_id := next_id s + 1\<rparr>)
       else (Inr \<lparr>user_id = next_id s, user_name = trim n, user_email = toLowerCase e\<rparr>,
             s\<lparr>issued := issued s @ [InsertUser (trim n) (toLowerCase e)],
               next_id := next_id s + 1,
               users := users s @ [\<lparr>user_id = next_id s, user_name = trim n,
                                    user_email = toLowerCase e\<rparr>]\<rparr>)
     else (Inl (ServiceError INTERNAL ''Failed to create user''),
           s\<lparr>issued := issued s @ [InsertUser (trim n) (toLowerCase e)]\<rparr>))"
  unfolding createUser_valid [OF assms] pool_query_None
  by (simp add: sql_insert_def Let_def varchar255_trim varchar255_valid_email [OF assms(2)]
      pg_error_def invalid_byte_sequence_def)

text \<open>
  What \<^verbatim>\<open>createUser\<close> does to the table: it answers with an error and leaves the rows,
  or it answers with a record and that record is the one row more; the record has the
  sequence's value as id, which no row had, the trimmed name, and the lowercased email
  of a request that passed validation, which no row had.
\<close>

lemma createUser_effect:
  assumes "createUser fault name email s = (res, s')"
  shows "((\<exists>err. res = Inl err) \<and> users s' = users s \<and> next_id s \<le> next_id s')
    \<or> (\<exists>n e. name = Some n \<and> email = Some e \<and> isValidEmail e
          \<and> pg_text (toLowerCase e) \<and> length (toLowerCase e) \<le> 255
          \<and> next_id s \<notin> user_id ` set (users s)
          \<and> toLowerCase e \<notin> user_email ` set (users s)
          \<and> res = Inr \<lparr>user_id = next_id s, user_name = trim n, user_email = toLowerCase e\<rparr>
          \<and> users s' = users s @ [\<lparr>user_id = next_id s, user_name = trim n,
                                     user_email = toLowerCase e\<rparr>]
          \<and> next_id s' = next_id s + 1)"
proof (cases "falsy name \<or> falsy email \<or> trim (the name) = [] \<or> \<not> isValidEmail (the email)")
  case True
  from createUser_invalid [OF True, of fault s] assms show ?thesis by auto
next
  case False
  then obtain n e where ne: "name = Some n" "email = Some e" "trim n \<noteq> []" "isValidEmail e"
    by (cases name; cases email) (auto simp: falsy_def)
  show ?thesis
  proof (cases fault)
    case (Some err)
    with assms createUser_valid [OF ne(3,4), of fault s] show ?thesis
      by (auto simp: pool_query_Some ne split: if_splits)
  next
    case None
    show ?thesis
    proof (cases "pg_text (trim n) \<and> pg_text (toLowerCase e)
        \<and> length (trim n) \<le> 255 \<and> length (toLowerCase e) \<le> 255
        \<and> \<not> (\<exists>r \<in> set (users s). user_id r = next_id s \<or> user_email r = toLowerCase e)")
      case True
      then have "next_id s \<notin> user_id ` set (users s)"
        and "toLowerCase e \<notin> user_email ` set (users s)"
        by force+
      with True assms createUser_answer [OF ne(3,4), of s] None ne show ?thesis
        by auto
    next
      case False
      with assms createUser_answer [OF ne(3,4), of s] None ne show ?thesis
        by (auto split: if_splits)
    qed
  qed
qed

text \<open>
  The same without a look at the strings: whatever the request and whatever the
  environment does, \<^verbatim>\<open>createUser\<close> leaves the rows, or adds one row that has the
  sequence's value as id and moves the sequence by one.
\<close>

lemma sql_insert_shape:
  "next_id s \<le> next_id (snd (sql_insert n e s))
   \<and> (users (snd (sql_insert n e s)) = users s
      \<or> (\<exists>row. user_id row = next_id s
            \<and> users (snd (sql_insert n e s)) = users s @ [row]
            \<and> next_id (snd (sql_insert n e s)) = next_id s + 1))"
  by (auto simp: sql_insert_def Let_def split: option.splits)

lemma createUser_state:
  "snd (createUser fault name email s) = s
   \<or> snd (createUser fault name email s) =
       snd (pool_query fault (InsertUser (trim (the name)) (toLowerCase (the email)))
              (sql_insert (trim (the name)) (toLowerCase (the email))) s)"
  by (auto simp: createUser_def split: prod.splits sum.splits list.splits)

lemma createUser_shape:
  "next_id s \<le> next_id (snd (createUser fault name email s))
   \<and> (users (snd (createUser fault name email s)) = users s
      \<or> (\<exists>row. user_id row = next_id s
            \<and> users (snd (createUser fault name email s)) = users s @ [row]
            \<and> next_id (snd (createUser fault name email s)) = next_id s + 1))"
proof -
  let ?q = "InsertUser (trim (the name)) (toLowerCase (the email))"
  let ?s1 = "s\<lparr>issued := issued s @ [?q]\<rparr>"
  from createUser_state [of fault name email s]
  consider "snd (createUser fault name email s) = s"
    | "snd (createUser fault name email s) = ?s1"
    | "snd (createUser fault name email s) =
         snd (sql_insert (trim (the name)) (toLowerCase (the email)) ?s1)"
    by (cases fault) (auto simp: pool_query_None pool_query_Some)
  then show ?thesis
  proof cases
    case 1
    then show ?thesis by simp
  next
    case 2
    then show ?thesis by simp
  next
    case 3
    with sql_insert_shape [of ?s1 "trim (the name)" "toLowerCase (the email)"]
    show ?thesis by simp
  qed
qed

text \<open>
  A request that passes validation and whose trimmed name or lowercased email has the
  character U+0000 in it is answered \<open>INTERNAL\<close>, and the table and the sequence stay
  as they are.
\<close>

lemma createUser_not_a_text:
  assumes "trim n \<noteq> []" and "isValidEmail e"
    and "\<not> pg_text (trim n) \<or> \<not> pg_text (toLowerCase e)"
  shows "createUser None (Some n) (Some e) s =
     (Inl (ServiceError INTERNAL ''Failed to create user''),
      s\<lparr>issued := issued s @ [InsertUser (trim n) (toLowerCase e)]\<rparr>)"
  using assms(3) by (auto simp: createUser_answer [OF assms(1,2)])

lemma getUsers_effect: "users (snd (getUsers fault name_filter s)) = users s
    \<and> next_id (snd (getUsers fault name_filter s)) = next_id s"
  by (cases fault)
    (auto simp: getUsers_def pool_query_None pool_query_Some sql_select_all_def sql_select_like_def
      split: option.splits if_splits)

lemma deleteUser_effect:
  "next_id (snd (deleteUser fault rid s)) = next_id s
   \<and> (\<exists>P. users (snd (deleteUser fault rid s)) = filter P (users s))"
proof (cases "rid = None \<or> rid = Some 0")
  case True
  then have "snd (deleteUser fault rid s) = s" by (auto simp: deleteUser_def)
  moreover have "users s = filter (\<lambda>r. True) (users s)" by simp
  ultimately show ?thesis by metis
next
  case False
  show ?thesis
  proof (cases fault)
    case None
    with False have "users (snd (deleteUser fault rid s)) =
        filter (\<lambda>r. user_id r \<noteq> sint (the rid)) (users s)"
      and "next_id (snd (deleteUser fault rid s)) = next_id s"
      by (auto simp: deleteUser_def pool_query_None sql_delete_def)
    then show ?thesis by blast
  next
    case (Some err)
    with False have "users (snd (deleteUser fault rid s)) = filter (\<lambda>r. True) (users s)"
      and "next_id (snd (deleteUser fault rid s)) = next_id s"
      by (auto simp: deleteUser_def pool_query_Some)
    then show ?thesis by blast
  qed
qed

section \<open>Invariants of the reachable states\<close>

lemma serve_shape:
  "next_id s \<le> next_id (snd (serve fault req s))
   \<and> ((\<exists>P. users (snd (serve fault req s)) = filter P (users s))
      \<or> (\<exists>row. user_id row = next_id s
            \<and> users (snd (serve fault req s)) = users s @ [row]
            \<and> next_id (snd (serve fault req s)) = next_id s + 1))"
proof (cases req)
  case (CreateUser name email)
  then have s': "snd (serve fault req s) = snd (createUser fault name email s)"
    by (simp add: serve_def)
  from createUser_shape [of s fault name email]
  consider "next_id s \<le> next_id (snd (createUser fault name email s))"
      "users (snd (createUser fault name email s)) = filter (\<lambda>r. True) (users s)"
    | row where "user_id row = next_id s"
      "users (snd (createUser fault name email s)) = users s @ [row]"
      "next_id (snd (createUser fault name email s)) = next_id s + 1"
    by auto
  then show ?thesis
  proof cases
    case 1
    then show ?thesis unfolding s' by blast
  next
    case 2
    then show ?thesis unfolding s' by simp
  qed
next
  case (GetUsers name_filter)
  then have "snd (serve fault req s) = snd (getUsers fault name_filter s)"
    by (simp add: serve_def)
  with getUsers_effect [of fault name_filter s]
  have "users (snd (serve fault req s)) = filter (\<lambda>r. True) (users s)"
    and "next_id (snd (serve fault req s)) = next_id s"
    by simp_all
  then show ?thesis by (metis order_refl)
next
  case (DeleteUser rid)
  then have "snd (serve fault req s) = snd (deleteUser fault rid s)"
    by (simp add: serve_def)
  with deleteUser_effect [of fault rid s] show ?thesis by auto
qed

lemma serve_sequence_ahead:
  assumes "sequence_ahead s"
  shows "sequence_ahead (snd (serve fault req s))"
proof -
  from serve_shape [of s fault req]
  consider (less) P where "users (snd (serve fault req s)) = filter P (users s)"
      "next_id s \<le> next_id (snd (serve fault req s))"
    | (more) row where "user_id row = next_id s"
        "users (snd (serve fault req s)) = users s @ [row]"
        "next_id (snd (serve fault req s)) = next_id s + 1"
    by blast
  then show ?thesis
  proof cases
    case less
    with assms show ?thesis
      by (fastforce simp: sequence_ahead_def)
  next
    case more
    with assms show ?thesis
      by (fastforce simp: sequence_ahead_def)
  qed
qed

lemma serve_all_sequence_ahead:
  "sequence_ahead s \<Longrightarrow> sequence_ahead (serve_all calls s)"
proof (induction calls arbitrary: s)
  case Nil
  then show ?case by simp
next
  case (Cons call calls)
  obtain fault req where call: "call = (fault, req)" by (cases call)
  show ?case
    unfolding call serve_all.simps
    by (rule Cons.IH) (simp add: serve_sequence_ahead Cons.prems)
qed

lemma reachable_sequence_ahead: "sequence_ahead (serve_all calls empty_database)"
  by (rule serve_all_sequence_ahead) (simp add: empty_database_def sequence_ahead_def)

lemma serve_effect:
  "(\<exists>P. users (snd (serve fault req s)) = filter P (users s))
   \<or> (\<exists>e n'. isValidEmail e \<and> pg_text (toLowerCase e) \<and> length (toLowerCase e) \<le> 255
         \<and> toLowerCase e \<notin> user_email ` set (users s)
         \<and> users (snd (serve fault req s)) =
             users s @ [\<lparr>user_id = next_id s, user_name = n', user_email = toLowerCase e\<rparr>])"
proof (cases req)
  case (CreateUser name email)
  obtain res s' where c: "createUser fault name email s = (res, s')"
    by (cases "createUser fault name email s") auto
  then have s': "snd (serve fault req s) = s'"
    by (simp add: serve_def CreateUser)
  from createUser_effect [OF c] show ?thesis
  proof (elim disjE exE conjE)
    assume "users s' = users s"
    then have "users s' = filter (\<lambda>r. True) (users s)" by simp
    with s' show ?thesis by metis
  next
    fix n e
    assume "isValidEmail e" "pg_text (toLowerCase e)" "length (toLowerCase e) \<le> 255"
      "toLowerCase e \<notin> user_email ` set (users s)"
      "users s' = users s @ [\<lparr>user_id = next_id s, user_name = trim n,
                                     user_email = toLowerCase e\<rparr>]"
    with s' show ?thesis by auto
  qed
next
  case (GetUsers name_filter)
  then have "snd (serve fault req s) = snd (getUsers fault name_filter s)"
    by (simp add: serve_def)
  with getUsers_effect [of fault name_filter s]
  have "users (snd (serve fault req s)) = filter (\<lambda>r. True) (users s)"
    by simp
  then show ?thesis by metis
next
  case (DeleteUser rid)
  then have "snd (serve fault req s) = snd (deleteUser fault rid s)"
    by (simp add: serve_def)
  with deleteUser_effect [of fault rid s] show ?thesis by auto
qed

lemma normalized_new_email:
  assumes "isValidEmail e" and "pg_text (toLowerCase e)" and "length (toLowerCase e) \<le> 255"
  shows "isValidEmail (toLowerCase e)"
    and "toLowerCase (toLowerCase e) = toLowerCase e"
    and "list_all (\<lambda>c. \<not> isWhiteSpace c) (toLowerCase e)"
  using assms valid_email_no_space [OF assms(1)]
  by (simp_all add: isValidEmail_toLowerCase toLowerCase_idem no_space_toLowerCase)

lemma serve_emails_normalized:
  assumes "emails_normalized s"
  shows "emails_normalized (snd (serve fault req s))"
  using serve_effect [of fault req s] assms normalized_new_email
  by (auto simp: emails_normalized_def)

lemma serve_emails_unique:
  assumes "emails_normalized s" and "emails_unique s"
  shows "emails_unique (snd (serve fault req s))"
proof -
  from serve_effect [of fault req s]
  consider (less) P where "users (snd (serve fault req s)) = filter P (users s)"
    | (more) e n' where "isValidEmail e"
        "toLowerCase e \<notin> user_email ` set (users s)"
        "users (snd (serve fault req s)) =
           users s @ [\<lparr>user_id = next_id s, user_name = n', user_email = toLowerCase e\<rparr>]"
    by blast
  then show ?thesis
  proof cases
    case less
    with assms(2) show ?thesis
      by (simp add: emails_unique_def distinct_map_filter)
  next
    case more
    from assms(1) have "(\<lambda>r. toLowerCase (user_email r)) ` set (users s) = user_email ` set (users s)"
      by (auto simp: emails_normalized_def image_iff)
    with more assms(2) show ?thesis
      by (simp add: emails_unique_def toLowerCase_idem)
  qed
qed

lemma serve_all_invariants:
  assumes "emails_normalized s" and "emails_unique s"
  shows "emails_normalized (serve_all calls s) \<and> emails_unique (serve_all calls s)"
  using assms
proof (induction calls arbitrary: s)
  case Nil
  then show ?case by simp
next
  case (Cons call calls)
  obtain fault req where call: "call = (fault, req)" by (cases call)
  show ?case
    unfolding call serve_all.simps
    by (rule Cons.IH)
      (simp_all add: serve_emails_normalized serve_emails_unique Cons.prems)
qed

lemma reachable_invariants:
  "emails_normalized (serve_all calls empty_database)
   \<and> emails_unique (serve_all calls empty_database)"
  by (rule serve_all_invariants)
    (simp_all add: empty_database_def emails_normalized_def emails_unique_def)

lemma ann_database_reachable:
  "ann_database = serve_all [(None, CreateUser (Some '' Ann '') (Some ''Ann@X.org''))] empty_database"
  by (simp add: serve_def ann_database_created)

section \<open>Creating users\<close>

lemma dropWhile_none: "list_all (\<lambda>c. \<not> P c) v \<Longrightarrow> dropWhile P v = v"
  by (cases v) auto

lemma trim_no_space: "list_all (\<lambda>c. \<not> isWhiteSpace c) v \<Longrightarrow> trim v = v"
  by (simp add: trim_def dropWhile_none)

lemma trim_Bob: "trim ''Bob '' = ''Bob''"
  by code_simp

lemma valid_bob: "isValidEmail ''Bob@Y.org''"
  by code_simp

lemma lower_bob: "toLowerCase ''Bob@Y.org'' = ''bob@y.org''"
  by code_simp



lemma trim_long_name: "trim (replicate 256 CHR ''a'') = replicate 256 CHR ''a''"
  by (rule trim_no_space) (simp add: list_all_iff isWhiteSpace_def)

lemma text_Bob: "pg_text ''Bob''"
  by (simp add: pg_text_def)

lemma text_bob_y_org: "pg_text ''bob@y.org''"
  by (simp add: pg_text_def)

text \<open>
  C2, as amended. In every state the service can reach, for every pair of a name that
  is not blank and an email that matches the pattern, whose trimmed name and lowercased
  email (the two values handed to the store) are texts of at most 255 characters each
  and whose lowercased email is not in the table, when the store runs the insert,
  \<^verbatim>\<open>createUser\<close> succeeds: it answers with the record of the trimmed name, the
  lowercased email and the id drawn from the sequence, an id no row has, and that
  record is the one row the table gains.
\<close>

theorem createUser_succeeds_when_it_fits:
  assumes "s = serve_all calls empty_database"
    and "trim n \<noteq> []" and "isValidEmail e"
    and "pg_text (trim n)" and "pg_text (toLowerCase e)"
    and "length (trim n) \<le> 255" and "length (toLowerCase e) \<le> 255"
    and "toLowerCase e \<notin> user_email ` set (users s)"
  shows "createUser None (Some n) (Some e) s =
     (Inr \<lparr>user_id = next_id s, user_name = trim n, user_email = toLowerCase e\<rparr>,
      s\<lparr>issued := issued s @ [InsertUser (trim n) (toLowerCase e)],
        next_id := next_id s + 1,
        users := users s @ [\<lparr>user_id = next_id s, user_name = trim n,
                             user_email = toLowerCase e\<rparr>]\<rparr>)
    \<and> next_id s \<notin> user_id ` set (users s)"
proof -
  from assms(1) reachable_sequence_ahead [of calls] have "sequence_ahead s" by simp
  then have fresh: "next_id s \<notin> user_id ` set (users s)"
    by (auto simp: sequence_ahead_def)
  with assms(8)
  have free: "\<not> (\<exists>r \<in> set (users s). user_id r = next_id s \<or> user_email r = toLowerCase e)"
    by force
  from assms(6,7) have fit: "varchar255 (trim n) = Some (trim n)"
      "varchar255 (toLowerCase e) = Some (toLowerCase e)"
    by (simp_all add: varchar255_fits)
  have "createUser None (Some n) (Some e) s =
     (Inr \<lparr>user_id = next_id s, user_name = trim n, user_email = toLowerCase e\<rparr>,
      s\<lparr>issued := issued s @ [InsertUser (trim n) (toLowerCase e)],
        next_id := next_id s + 1,
        users := users s @ [\<lparr>user_id = next_id s, user_name = trim n,
                             user_email = toLowerCase e\<rparr>]\<rparr>)"
    unfolding createUser_valid [OF assms(2,3)] pool_query_None
    using assms(4,5) free by (simp add: sql_insert_def Let_def fit)
  with fresh show ?thesis by simp
qed

theorem createUser_succeeds_when_it_fits_witness:
  "trim ''Bob '' \<noteq> [] \<and> isValidEmail ''Bob@Y.org''
   \<and> pg_text (trim ''Bob '') \<and> pg_text (toLowerCase ''Bob@Y.org'')
   \<and> length (trim ''Bob '') \<le> 255 \<and> length (toLowerCase ''Bob@Y.org'') \<le> 255
   \<and> toLowerCase ''Bob@Y.org'' \<notin> user_email ` set (users ann_database)
   \<and> createUser None (Some ''Bob '') (Some ''Bob@Y.org'') ann_database =
     (Inr \<lparr>user_id = 2, user_name = ''Bob'', user_email = ''bob@y.org''\<rparr>,
      \<lparr>users = [\<lparr>user_id = 1, user_name = ''Ann'', user_email = ''ann@x.org''\<rparr>,
                \<lparr>user_id = 2, user_name = ''Bob'', user_email = ''bob@y.org''\<rparr>],
       next_id = 3,
       issued = [InsertUser ''Ann'' ''ann@x.org'', InsertUser ''Bob'' ''bob@y.org'']\<rparr>)"
proof -
  have h1: "trim ''Bob '' \<noteq> []" by (simp add: trim_Bob)
  have h2: "pg_text (trim ''Bob '')" by (simp add: trim_Bob text_Bob)
  have h3: "pg_text (toLowerCase ''Bob@Y.org'')" by (simp add: lower_bob text_bob_y_org)
  have h4: "length (trim ''Bob '') \<le> 255" by (simp add: trim_Bob)
  have h5: "length (toLowerCase ''Bob@Y.org'') \<le> 255" by (simp add: lower_bob)
  have h6: "toLowerCase ''Bob@Y.org'' \<notin> user_email ` set (users ann_database)"
    by (simp add: lower_bob ann_database_def)
  from createUser_succeeds_when_it_fits [OF ann_database_reachable h1 valid_bob h2 h3 h4 h5 h6]
  have "createUser None (Some ''Bob '') (Some ''Bob@Y.org'') ann_database =
     (Inr \<lparr>user_id = 2, user_name = ''Bob'', user_email = ''bob@y.org''\<rparr>,
      \<lparr>users = [\<lparr>user_id = 1, user_name = ''Ann'', user_email = ''ann@x.org''\<rparr>,
                \<lparr>user_id = 2, user_name = ''Bob'', user_email = ''bob@y.org''\<rparr>],
       next_id = 3,
       issued = [InsertUser ''Ann'' ''ann@x.org'', InsertUser ''Bob'' ''bob@y.org'']\<rparr>)"
    by (simp add: trim_Bob lower_bob ann_database_def)
  with h1 valid_bob h2 h3 h4 h5 h6 show ?thesis by blast
qed

text \<open>
  The claim as it stands fails for a name of 256 letters: the request passes
  validation, the email is not in use, and the insert is refused by the column
  \<open>name VARCHAR(255)\<close>, so the answer is \<open>INTERNAL\<close>; nothing is stored and no id is
  drawn.
\<close>

theorem createUser_long_name_counterexample:
  "trim (replicate 256 CHR ''a'') \<noteq> [] \<and> isValidEmail ''Ann@X.org''
   \<and> toLowerCase ''Ann@X.org'' \<notin> user_email ` set (users empty_database)
   \<and> createUser None (Some (replicate 256 CHR ''a'')) (Some ''Ann@X.org'') empty_database =
     (Inl (ServiceError INTERNAL ''Failed to create user''),
      \<lparr>users = [], next_id = 1,
       issued = [InsertUser (replicate 256 CHR ''a'') ''ann@x.org'']\<rparr>)"
proof -
  have ne: "trim (replicate 256 CHR ''a'') \<noteq> []"
    by (simp add: trim_long_name)
  have c: "createUser None (Some (replicate 256 CHR ''a'')) (Some ''Ann@X.org'') empty_database =
     (Inl (ServiceError INTERNAL ''Failed to create user''),
      \<lparr>users = [], next_id = 1,
       issued = [InsertUser (replicate 256 CHR ''a'') ''ann@x.org'']\<rparr>)"
    by (simp add: createUser_answer [OF ne valid_ann] trim_long_name lower_ann empty_database_def)
  have u: "toLowerCase ''Ann@X.org'' \<notin> user_email ` set (users empty_database)"
    by (simp add: empty_database_def)
  from ne valid_ann u c show ?thesis by blast
qed

section \<open>Stored emails\<close>




text \<open>
  C10. \<^verbatim>\<open>createUser\<close> does not trim the email. An email with whitespace at its start
  or its end does not match the pattern: the request is answered with an
  \<open>INVALID_ARGUMENT\<close> error and the store stays as it is, and for every request that
  comes to the check of the email, one whose name is present and not blank, the error
  is "Invalid email format". In every state the service can reach, every stored email
  is free of whitespace and equal to its lowercase form.
\<close>

theorem createUser_rejects_untrimmed_email:
  "(trim e \<noteq> e \<longrightarrow>
      \<not> isValidEmail e
      \<and> (\<exists>m. createUser fault name (Some e) s = (Inl (ServiceError INVALID_ARGUMENT m), s))
      \<and> (\<forall>n. name = Some n \<and> trim n \<noteq> [] \<longrightarrow>
            createUser fault name (Some e) s =
              (Inl (ServiceError INVALID_ARGUMENT ''Invalid email format''), s)))
   \<and> (\<forall>r \<in> set (users (serve_all calls empty_database)).
        list_all (\<lambda>c. \<not> isWhiteSpace c) (user_email r)
        \<and> toLowerCase (user_email r) = user_email r)"
proof (intro conjI impI allI ballI)
  assume t: "trim e \<noteq> e"
  show nv: "\<not> isValidEmail e"
  proof
    assume "isValidEmail e"
    then have "list_all (\<lambda>c. \<not> isWhiteSpace c) e" by (rule valid_email_no_space)
    then have "trim e = e" by (rule trim_no_space)
    with t show False by simp
  qed
  then have "falsy name \<or> falsy (Some e) \<or> trim (the name) = [] \<or> \<not> isValidEmail (the (Some e))"
    by simp
  then have st: "snd (createUser fault name (Some e) s) = s"
    by (simp add: createUser_invalid)
  from nv have "\<exists>m. fst (createUser fault name (Some e) s) = Inl (ServiceError INVALID_ARGUMENT m)"
    by (auto simp: createUser_def)
  with st show "\<exists>m. createUser fault name (Some e) s = (Inl (ServiceError INVALID_ARGUMENT m), s)"
    by (metis prod.collapse)
  fix n
  assume "name = Some n \<and> trim n \<noteq> []"
  moreover from t have "e \<noteq> []" by (auto simp: trim_Nil)
  ultimately show "createUser fault name (Some e) s =
              (Inl (ServiceError INVALID_ARGUMENT ''Invalid email format''), s)"
    using nv by (auto simp: createUser_def falsy_def trim_Nil)
next
  fix r
  assume "r \<in> set (users (serve_all calls empty_database))"
  with reachable_invariants [of calls]
  show "list_all (\<lambda>c. \<not> isWhiteSpace c) (user_email r)"
    and "toLowerCase (user_email r) = user_email r"
    by (auto simp: emails_normalized_def)
qed

theorem createUser_rejects_untrimmed_email_witness:
  "trim '' ann@x.org'' \<noteq> '' ann@x.org''
   \<and> createUser None (Some ''Ann'') (Some '' ann@x.org'') ann_database =
       (Inl (ServiceError INVALID_ARGUMENT ''Invalid email format''), ann_database)
   \<and> \<lparr>user_id = 1, user_name = ''Ann'', user_email = ''ann@x.org''\<rparr> \<in> set (users ann_database)
   \<and> list_all (\<lambda>c. \<not> isWhiteSpace c) ''ann@x.org''
   \<and> toLowerCase ''ann@x.org'' = ''ann@x.org''"
proof -
  let ?r = "\<lparr>user_id = 1, user_name = ''Ann'', user_email = ''ann@x.org''\<rparr>"
  note th = createUser_rejects_untrimmed_email
    [of "'' ann@x.org''" None "Some ''Ann''" ann_database
        "[(None, CreateUser (Some '' Ann '') (Some ''Ann@X.org''))]"]
  have t: "trim '' ann@x.org'' \<noteq> '' ann@x.org''" by code_simp
  have r: "?r \<in> set (users ann_database)" by (simp add: ann_database_def)
  from th t trim_Ann
  have a: "createUser None (Some ''Ann'') (Some '' ann@x.org'') ann_database =
       (Inl (ServiceError INVALID_ARGUMENT ''Invalid email format''), ann_database)"
    by simp
  from th r
  have "list_all (\<lambda>c. \<not> isWhiteSpace c) (user_email ?r) \<and> toLowerCase (user_email ?r) = user_email ?r"
    unfolding ann_database_reachable [symmetric] by blast
  then have b: "list_all (\<lambda>c. \<not> isWhiteSpace c) ''ann@x.org''"
    and c: "toLowerCase ''ann@x.org'' = ''ann@x.org''"
    by simp_all
  from t a r b c show ?thesis by blast
qed

section \<open>Listing users\<close>

lemma like_match_literals:
  "like_match (map Literal p @ ts) v = (\<exists>w. v = p @ w \<and> like_match ts w)"
  by (induction p arbitrary: v) (auto split: list.splits)

lemma like_match_any_string:
  "like_match (AnyString # ts) v = (\<exists>u w. v = u @ w \<and> like_match ts w)"
proof (induction v)
  case Nil
  then show ?case by simp
next
  case (Cons c cs)
  show ?case
  proof
    assume "like_match (AnyString # ts) (c # cs)"
    then consider "like_match ts (c # cs)" | "like_match (AnyString # ts) cs" by auto
    then show "\<exists>u w. c # cs = u @ w \<and> like_match ts w"
    proof cases
      case 1
      then have "c # cs = [] @ (c # cs) \<and> like_match ts (c # cs)" by simp
      then show ?thesis by blast
    next
      case 2
      with Cons.IH obtain u w where "cs = u @ w" "like_match ts w" by blast
      then have "c # cs = (c # u) @ w \<and> like_match ts w" by simp
      then show ?thesis by blast
    qed
  next
    assume "\<exists>u w. c # cs = u @ w \<and> like_match ts w"
    then obtain u w where uw: "c # cs = u @ w" "like_match ts w" by blast
    show "like_match (AnyString # ts) (c # cs)"
    proof (cases u)
      case Nil
      with uw show ?thesis by simp
    next
      case (Cons d u')
      with uw have "cs = u' @ w" by simp
      with uw(2) Cons.IH have "like_match (AnyString # ts) cs" by blast
      then show ?thesis by simp
    qed
  qed
qed

lemma like_match_contains:
  "like_match (AnyString # map Literal p @ [AnyString]) v = sublist p v"
proof -
  have any: "like_match [AnyString] w" for w
    by (induction w) auto
  have "like_match (AnyString # map Literal p @ [AnyString]) v =
      (\<exists>u w. v = u @ w \<and> like_match (map Literal p @ [AnyString]) w)"
    by (rule like_match_any_string)
  also have "\<dots> = (\<exists>u w. v = u @ w \<and> (\<exists>w'. w = p @ w' \<and> like_match [AnyString] w'))"
    by (simp only: like_match_literals)
  also have "\<dots> = (\<exists>u w'. v = u @ p @ w')"
    using any by blast
  also have "\<dots> = sublist p v"
    by (simp only: sublist_def)
  finally show ?thesis .
qed

lemma like_parse_plain:
  "list_all like_plain p \<Longrightarrow> like_parse (p @ ''%'') = Some (map Literal p @ [AnyString])"
  by (induction p) (auto simp: like_plain_def)

lemma like_parse_closed: "like_parse (p @ ''%'') \<noteq> None"
proof (induction p rule: like_parse.induct)
  case 1
  then show ?case by simp
next
  case (2 c cs)
  then show ?case by (cases cs) auto
qed

lemma toLowerCase_percent:
  "toLowerCase (CHR ''%'' # p @ [CHR ''%'']) = CHR ''%'' # toLowerCase p @ [CHR ''%'']"
proof -
  have "toLowerCase_char CHR ''%'' = CHR ''%''" by code_simp
  then show ?thesis by (simp add: toLowerCase_def)
qed

lemma sorted_sort_key_user_id: "sorted (map user_id (sort_key user_id rs))"
  by (rule sorted_sort_key)

text \<open>Without a filter, or with a blank one, all rows come back, in the order of their ids.\<close>

lemma getUsers_all:
  assumes "name_filter = None \<or> (\<exists>f. name_filter = Some f \<and> trim f = [])"
  shows "getUsers None name_filter s =
    (Inr (sort_key user_id (users s)), s\<lparr>issued := issued s @ [SelectUsers]\<rparr>)"
  using assms
  by (auto simp: getUsers_def falsy_def pool_query_None sql_select_all_def)

text \<open>
  With a filter that is not blank, is a text and has none of the characters \<open>%\<close>, \<open>_\<close>
  and backslash, the rows that come back are those whose lowercased name has the
  lowercased trimmed filter as a substring, in the order of their ids.
\<close>

lemma getUsers_plain_filter:
  assumes "trim f \<noteq> []" and "pg_text (trim f)"
    and "list_all like_plain (toLowerCase (trim f))"
  shows "getUsers None (Some f) s =
    (Inr (sort_key user_id
           (filter (\<lambda>r. sublist (toLowerCase (trim f)) (toLowerCase (user_name r))) (users s))),
     s\<lparr>issued := issued s @ [SelectUsersLike (''%'' @ trim f @ ''%'')]\<rparr>)"
proof -
  from assms(1) have "f \<noteq> []" by (auto simp: trim_Nil)
  with assms(1) have g: "getUsers None (Some f) s =
     (case sql_select_like (''%'' @ trim f @ ''%'')
             (s\<lparr>issued := issued s @ [SelectUsersLike (''%'' @ trim f @ ''%'')]\<rparr>) of
        (Inr rows, s') \<Rightarrow> (Inr rows, s')
      | (Inl err, s') \<Rightarrow> (Inl (ServiceError INTERNAL ''Failed to retrieve users''), s'))"
    by (simp add: getUsers_def falsy_def pool_query_None)
  have "like_parse (toLowerCase (''%'' @ trim f @ ''%'')) =
      Some (AnyString # map Literal (toLowerCase (trim f)) @ [AnyString])"
    using like_parse_plain [OF assms(3)] by (simp add: toLowerCase_percent)
  moreover from assms(2) have "pg_text (''%'' @ trim f @ ''%'')"
    by (simp add: pg_text_def)
  ultimately show ?thesis
    unfolding g by (simp add: sql_select_like_def like_match_contains del: like_match.simps)
qed

text \<open>
  The statement of \<^verbatim>\<open>getUsers\<close> is never refused for a backslash at the end of its
  pattern.
\<close>

lemma getUsers_pattern_accepted:
  "like_parse (toLowerCase (''%'' @ trim f @ ''%'')) \<noteq> None"
  using like_parse_closed [of "toLowerCase (trim f)"]
  by (auto simp: toLowerCase_percent)

text \<open>
  C4. \<^verbatim>\<open>getUsers\<close> does not return exactly the records whose name has the filter as
  a substring: the characters \<open>%\<close>, \<open>_\<close> and backslash of the filter reach \<open>LIKE\<close> as
  they are and act as wildcards. With the one user Ann in the table, the filter \<^verbatim>\<open>a_n\<close>
  returns her record, though "a_n" is not a substring of her name, in any letter case.
  (For a filter that is absent or blank, and for a filter that is a text without these
  three characters, the result is as claimed: \<open>getUsers_all\<close>,
  \<open>getUsers_plain_filter\<close>.)
\<close>

theorem getUsers_filter_is_a_pattern:
  "getUsers None (Some ''a_n'') ann_database =
     (Inr [\<lparr>user_id = 1, user_name = ''Ann'', user_email = ''ann@x.org''\<rparr>],
      ann_database\<lparr>issued := issued ann_database @ [SelectUsersLike ''%a_n%'']\<rparr>)
   \<and> \<not> sublist (toLowerCase (trim ''a_n'')) (toLowerCase ''Ann'')"
proof -
  have t: "trim ''a_n'' = ''a_n''" by code_simp
  have l1: "toLowerCase ''%a_n%'' = ''%a_n%''" by code_simp
  have l2: "toLowerCase ''Ann'' = ''ann''" by code_simp
  have l3: "toLowerCase ''a_n'' = ''a_n''" by code_simp
  have p: "like_parse ''%a_n%'' = Some [AnyString, Literal CHR ''a'', AnyChar, Literal CHR ''n'', AnyString]"
    by simp
  have m: "like_match [AnyString, Literal CHR ''a'', AnyChar, Literal CHR ''n'', AnyString] ''ann''"
    by simp
  have a: "getUsers None (Some ''a_n'') ann_database =
     (Inr [\<lparr>user_id = 1, user_name = ''Ann'', user_email = ''ann@x.org''\<rparr>],
      ann_database\<lparr>issued := issued ann_database @ [SelectUsersLike ''%a_n%'']\<rparr>)"
    by (simp add: getUsers_def falsy_def t pool_query_None sql_select_like_def pg_text_def
        l1 l2 p m ann_database_def)
  have b: "\<not> sublist ''a_n'' ''ann''"
    by (simp add: sublist_Cons_right prefix_Cons)
  from a b show ?thesis by (simp add: t l2 l3)
qed

section \<open>Properties of the readiness loops\<close>

lemma waitForDatabase_from_ready:
  "i \<le> k \<Longrightarrow> k < retries \<Longrightarrow> probe k \<Longrightarrow> (\<forall>j. i \<le> j \<and> j < k \<longrightarrow> \<not> probe j) \<Longrightarrow>
   waitForDatabase_from i retries delayMs probe =
     (concat (map (\<lambda>j. [Attempt j,
                         ConsoleLog (''DB not ready, retry '' @ string_of_nat (j + 1) @ ''/''
                                     @ string_of_nat retries @ ''...''),
                         Sleep delayMs]) [i..<k])
      @ [Attempt k, ConsoleLog ''Database is ready''], Inr ())"
proof (induction "k - i" arbitrary: i)
  case 0
  then have "i = k" by simp
  with 0 show ?case
    by (simp add: waitForDatabase_from.simps [of k])
next
  case (Suc d)
  then have lt: "i < k" and np: "\<not> probe i" by auto
  from Suc have "waitForDatabase_from (i + 1) retries delayMs probe =
     (concat (map (\<lambda>j. [Attempt j,
                         ConsoleLog (''DB not ready, retry '' @ string_of_nat (j + 1) @ ''/''
                                     @ string_of_nat retries @ ''...''),
                         Sleep delayMs]) [i + 1..<k])
      @ [Attempt k, ConsoleLog ''Database is ready''], Inr ())"
    by (intro Suc.hyps) auto
  with lt np Suc.prems(2) show ?case
    by (simp add: waitForDatabase_from.simps [of i] upt_conv_Cons)
qed

lemma waitForDatabase_from_exhausted:
  "i \<le> retries \<Longrightarrow> (\<forall>j. i \<le> j \<and> j < retries \<longrightarrow> \<not> probe j) \<Longrightarrow>
   waitForDatabase_from i retries delayMs probe =
     (concat (map (\<lambda>j. [Attempt j,
                         ConsoleLog (''DB not ready, retry '' @ string_of_nat (j + 1) @ ''/''
                                     @ string_of_nat retries @ ''...''),
                         Sleep delayMs]) [i..<retries]),
      Inl (JsError None ''Database did not become ready in time''))"
proof (induction "retries - i" arbitrary: i)
  case 0
  then have "i = retries" by simp
  then show ?case
    by (simp add: waitForDatabase_from.simps [of retries])
next
  case (Suc d)
  then have lt: "i < retries" and np: "\<not> probe i" by auto
  from Suc have "waitForDatabase_from (i + 1) retries delayMs probe =
     (concat (map (\<lambda>j. [Attempt j,
                         ConsoleLog (''DB not ready, retry '' @ string_of_nat (j + 1) @ ''/''
                                     @ string_of_nat retries @ ''...''),
                         Sleep delayMs]) [i + 1..<retries]),
      Inl (JsError None ''Database did not become ready in time''))"
    by (intro Suc.hyps) auto
  with lt np show ?case
    by (simp add: waitForDatabase_from.simps [of i] upt_conv_Cons)
qed

lemma waitForDatabase_from_attempts:
  "length (filter (\<lambda>ev. case ev of Attempt j \<Rightarrow> True | _ \<Rightarrow> False)
             (fst (waitForDatabase_from i retries delayMs probe))) \<le> retries - i"
proof (induction i retries delayMs probe rule: waitForDatabase_from.induct)
  case (1 i retries delayMs probe)
  show ?case
  proof (cases "i < retries \<and> \<not> probe i")
    case True
    with 1 have "length (filter (\<lambda>ev. case ev of Attempt j \<Rightarrow> True | _ \<Rightarrow> False)
             (fst (waitForDatabase_from (i + 1) retries delayMs probe))) \<le> retries - (i + 1)"
      by simp
    with True show ?thesis
      by (auto simp: waitForDatabase_from.simps [of i] split: prod.splits)
  next
    case False
    then show ?thesis
      by (auto simp: waitForDatabase_from.simps [of i])
  qed
qed

lemma waitForServer_from_ready:
  "i \<le> k \<Longrightarrow> k < maxRetries \<Longrightarrow> probe k \<Longrightarrow> (\<forall>j. i \<le> j \<and> j < k \<longrightarrow> \<not> probe j) \<Longrightarrow>
   waitForServer_from i maxRetries delayMs probe =
     (concat (map (\<lambda>j. [Attempt j,
                         ConsoleLog (''Waiting for server... (attempt '' @ string_of_nat (j + 1)
                                     @ ''/'' @ string_of_nat maxRetries @ '')''),
                         Sleep delayMs]) [i..<k])
      @ [Attempt k, ConsoleLog ''Server is ready and responding\<newline>''], Inr True)"
proof (induction "k - i" arbitrary: i)
  case 0
  then have "i = k" by simp
  with 0 show ?case
    by (simp add: waitForServer_from.simps [of k])
next
  case (Suc d)
  then have lt: "i < k" and np: "\<not> probe i" by auto
  from Suc have "waitForServer_from (i + 1) maxRetries delayMs probe =
     (concat (map (\<lambda>j. [Attempt j,
                         ConsoleLog (''Waiting for server... (attempt '' @ string_of_nat (j + 1)
                                     @ ''/'' @ string_of_nat maxRetries @ '')''),
                         Sleep delayMs]) [i + 1..<k])
      @ [Attempt k, ConsoleLog ''Server is ready and responding\<newline>''], Inr True)"
    by (intro Suc.hyps) auto
  with lt np Suc.prems(2) show ?case
    by (simp add: waitForServer_from.simps [of i] upt_conv_Cons)
qed

lemma waitForServer_from_exhausted:
  "i \<le> maxRetries \<Longrightarrow> (\<forall>j. i \<le> j \<and> j < maxRetries \<longrightarrow> \<not> probe j) \<Longrightarrow>
   waitForServer_from i maxRetries delayMs probe =
     (concat (map (\<lambda>j. [Attempt j,
                         ConsoleLog (''Waiting for server... (attempt '' @ string_of_nat (j + 1)
                                     @ ''/'' @ string_of_nat maxRetries @ '')''),
                         Sleep delayMs]) [i..<maxRetries]),
      Inl (JsError None ''Server did not become available in time''))"
proof (induction "maxRetries - i" arbitrary: i)
  case 0
  then have "i = maxRetries" by simp
  then show ?case
    by (simp add: waitForServer_from.simps [of maxRetries])
next
  case (Suc d)
  then have lt: "i < maxRetries" and np: "\<not> probe i" by auto
  from Suc have "waitForServer_from (i + 1) maxRetries delayMs probe =
     (concat (map (\<lambda>j. [Attempt j,
                         ConsoleLog (''Waiting for server... (attempt '' @ string_of_nat (j + 1)
                                     @ ''/'' @ string_of_nat maxRetries @ '')''),
                         Sleep delayMs]) [i + 1..<maxRetries]),
      Inl (JsError None ''Server did not become available in time''))"
    by (intro Suc.hyps) auto
  with lt np show ?case
    by (simp add: waitForServer_from.simps [of i] upt_conv_Cons)
qed

lemma waitForServer_from_attempts:
  "length (filter (\<lambda>ev. case ev of Attempt j \<Rightarrow> True | _ \<Rightarrow> False)
             (fst (waitForServer_from i maxRetries delayMs probe))) \<le> maxRetries - i"
proof (induction i maxRetries delayMs probe rule: waitForServer_from.induct)
  case (1 i maxRetries delayMs probe)
  show ?case
  proof (cases "i < maxRetries \<and> \<not> probe i")
    case True
    with 1 have "length (filter (\<lambda>ev. case ev of Attempt j \<Rightarrow> True | _ \<Rightarrow> False)
             (fst (waitForServer_from (i + 1) maxRetries delayMs probe))) \<le> maxRetries - (i + 1)"
      by simp
    with True show ?thesis
      by (auto simp: waitForServer_from.simps [of i] split: prod.splits)
  next
    case False
    then show ?thesis
      by (auto simp: waitForServer_from.simps [of i])
  qed
qed

text \<open>
  C8. Each readiness loop returns for every budget and every behaviour of the probes,
  after at most as many attempts as its budget. When attempt \<open>k\<close> within the budget is
  the first that succeeds, the loop has made the attempts 0 to \<open>k\<close> in order, and after
  each failed one it has written a line with the attempt's number (counted from 1) and
  the budget and slept for the fixed delay; then it reports readiness and returns. When
  every attempt in the budget fails, each is followed by that line and that sleep, the
  loop throws, and the process that owns it, the server with its budget of 20 and the
  client with its budget of 30, ends with exit status 1.
\<close>

theorem readiness_loops:
  "(\<forall>k. k < retries \<and> probe k \<and> (\<forall>j<k. \<not> probe j) \<longrightarrow>
      waitForDatabase retries delayMs probe =
        (concat (map (\<lambda>j. [Attempt j,
                            ConsoleLog (''DB not ready, retry '' @ string_of_nat (j + 1) @ ''/''
                                        @ string_of_nat retries @ ''...''),
                            Sleep delayMs]) [0..<k])
         @ [Attempt k, ConsoleLog ''Database is ready''], Inr ()))
   \<and> ((\<forall>j<retries. \<not> probe j) \<longrightarrow>
      waitForDatabase retries delayMs probe =
        (concat (map (\<lambda>j. [Attempt j,
                            ConsoleLog (''DB not ready, retry '' @ string_of_nat (j + 1) @ ''/''
                                        @ string_of_nat retries @ ''...''),
                            Sleep delayMs]) [0..<retries]),
         Inl (JsError None ''Database did not become ready in time'')))
   \<and> length (filter (\<lambda>ev. case ev of Attempt j \<Rightarrow> True | _ \<Rightarrow> False)
               (fst (waitForDatabase retries delayMs probe))) \<le> retries
   \<and> ((\<forall>j<20. \<not> probe j) \<longrightarrow> snd (server_main probe init_fault bind_ok) = Exited 1)
   \<and> (\<forall>k. k < maxRetries \<and> probe k \<and> (\<forall>j<k. \<not> probe j) \<longrightarrow>
      waitForServer maxRetries delayMs probe =
        (concat (map (\<lambda>j. [Attempt j,
                            ConsoleLog (''Waiting for server... (attempt '' @ string_of_nat (j + 1)
                                        @ ''/'' @ string_of_nat maxRetries @ '')''),
                            Sleep delayMs]) [0..<k])
         @ [Attempt k, ConsoleLog ''Server is ready and responding\<newline>''], Inr True))
   \<and> ((\<forall>j<maxRetries. \<not> probe j) \<longrightarrow>
      waitForServer maxRetries delayMs probe =
        (concat (map (\<lambda>j. [Attempt j,
                            ConsoleLog (''Waiting for server... (attempt '' @ string_of_nat (j + 1)
                                        @ ''/'' @ string_of_nat maxRetries @ '')''),
                            Sleep delayMs]) [0..<maxRetries]),
         Inl (JsError None ''Server did not become available in time'')))
   \<and> length (filter (\<lambda>ev. case ev of Attempt j \<Rightarrow> True | _ \<Rightarrow> False)
               (fst (waitForServer maxRetries delayMs probe))) \<le> maxRetries
   \<and> ((\<forall>j<30. \<not> probe j) \<longrightarrow> snd (client_main probe demo_ok) = Exited 1)"
proof (intro conjI allI impI)
  fix k
  assume "k < retries \<and> probe k \<and> (\<forall>j<k. \<not> probe j)"
  then show "waitForDatabase retries delayMs probe =
        (concat (map (\<lambda>j. [Attempt j,
                            ConsoleLog (''DB not ready, retry '' @ string_of_nat (j + 1) @ ''/''
                                        @ string_of_nat retries @ ''...''),
                            Sleep delayMs]) [0..<k])
         @ [Attempt k, ConsoleLog ''Database is ready''], Inr ())"
    unfolding waitForDatabase_def by (intro waitForDatabase_from_ready) auto
next
  assume "\<forall>j<retries. \<not> probe j"
  then show "waitForDatabase retries delayMs probe =
        (concat (map (\<lambda>j. [Attempt j,
                            ConsoleLog (''DB not ready, retry '' @ string_of_nat (j + 1) @ ''/''
                                        @ string_of_nat retries @ ''...''),
                            Sleep delayMs]) [0..<retries]),
         Inl (JsError None ''Database did not become ready in time''))"
    unfolding waitForDatabase_def by (intro waitForDatabase_from_exhausted) auto
next
  show "length (filter (\<lambda>ev. case ev of Attempt j \<Rightarrow> True | _ \<Rightarrow> False)
               (fst (waitForDatabase retries delayMs probe))) \<le> retries"
    unfolding waitForDatabase_def
    using waitForDatabase_from_attempts [of 0 retries delayMs probe] by simp
next
  assume "\<forall>j<20. \<not> probe j"
  then have "snd (waitForDatabase 20 1000 probe) =
      Inl (JsError None ''Database did not become ready in time'')"
    unfolding waitForDatabase_def
    by (subst waitForDatabase_from_exhausted) auto
  then show "snd (server_main probe init_fault bind_ok) = Exited 1"
    by (cases "waitForDatabase 20 1000 probe") (simp add: server_main_def)
next
  fix k
  assume "k < maxRetries \<and> probe k \<and> (\<forall>j<k. \<not> probe j)"
  then show "waitForServer maxRetries delayMs probe =
        (concat (map (\<lambda>j. [Attempt j,
                            ConsoleLog (''Waiting for server... (attempt '' @ string_of_nat (j + 1)
                                        @ ''/'' @ string_of_nat maxRetries @ '')''),
                            Sleep delayMs]) [0..<k])
         @ [Attempt k, ConsoleLog ''Server is ready and responding\<newline>''], Inr True)"
    unfolding waitForServer_def by (intro waitForServer_from_ready) auto
next
  assume "\<forall>j<maxRetries. \<not> probe j"
  then show "waitForServer maxRetries delayMs probe =
        (concat (map (\<lambda>j. [Attempt j,
                            ConsoleLog (''Waiting for server... (attempt '' @ string_of_nat (j + 1)
                                        @ ''/'' @ string_of_nat maxRetries @ '')''),
                            Sleep delayMs]) [0..<maxRetries]),
         Inl (JsError None ''Server did not become available in time''))"
    unfolding waitForServer_def by (intro waitForServer_from_exhausted) auto
next
  show "length (filter (\<lambda>ev. case ev of Attempt j \<Rightarrow> True | _ \<Rightarrow> False)
               (fst (waitForServer maxRetries delayMs probe))) \<le> maxRetries"
    unfolding waitForServer_def
    using waitForServer_from_attempts [of 0 maxRetries delayMs probe] by simp
next
  assume "\<forall>j<30. \<not> probe j"
  then have "snd (waitForServer 30 1000 probe) =
      Inl (JsError None ''Server did not become available in time'')"
    unfolding waitForServer_def
    by (subst waitForServer_from_exhausted) auto
  then show "snd (client_main probe demo_ok) = Exited 1"
    by (cases "waitForServer 30 1000 probe") (simp add: client_main_def)
qed

theorem readiness_loops_witness:
  "waitForDatabase 3 1000 (\<lambda>i. i = 2) =
     ([Attempt 0, ConsoleLog ''DB not ready, retry 1/3...'', Sleep 1000,
       Attempt 1, ConsoleLog ''DB not ready, retry 2/3...'', Sleep 1000,
       Attempt 2, ConsoleLog ''Database is ready''], Inr ())
   \<and> waitForDatabase 2 1000 (\<lambda>i. False) =
     ([Attempt 0, ConsoleLog ''DB not ready, retry 1/2...'', Sleep 1000,
       Attempt 1, ConsoleLog ''DB not ready, retry 2/2...'', Sleep 1000],
      Inl (JsError None ''Database did not become ready in time''))
   \<and> snd (server_main (\<lambda>i. False) None True) = Exited 1
   \<and> waitForServer 3 1000 (\<lambda>i. i = 1) =
     ([Attempt 0, ConsoleLog ''Waiting for server... (attempt 1/3)'', Sleep 1000,
       Attempt 1, ConsoleLog ''Server is ready and responding\<newline>''], Inr True)
   \<and> waitForServer 2 1000 (\<lambda>i. False) =
     ([Attempt 0, ConsoleLog ''Waiting for server... (attempt 1/2)'', Sleep 1000,
       Attempt 1, ConsoleLog ''Waiting for server... (attempt 2/2)'', Sleep 1000],
      Inl (JsError None ''Server did not become available in time''))
   \<and> snd (client_main (\<lambda>i. False) True) = Exited 1"
proof -
  have n: "string_of_nat (Suc 0) = ''1''" "string_of_nat (Suc (Suc 0)) = ''2''"
      "string_of_nat 2 = ''2''" "string_of_nat 3 = ''3''"
    by (simp_all add: string_of_nat.simps)
  have u: "[0..<2] = [0, 1]" "[0..<1] = [0]"
    by (simp_all add: upt_conv_Cons)
  have h1: "(2::nat) < 3 \<and> (\<lambda>i::nat. i = 2) 2 \<and> (\<forall>j<2. \<not> (\<lambda>i::nat. i = 2) j)"
    by simp
  have h2: "(1::nat) < 3 \<and> (\<lambda>i::nat. i = 1) 1 \<and> (\<forall>j<1. \<not> (\<lambda>i::nat. i = 1) j)"
    by simp
  from readiness_loops [of 3 "\<lambda>i. i = 2" 1000 None True 3 True] h1
  have "waitForDatabase 3 1000 (\<lambda>i. i = 2) =
        (concat (map (\<lambda>j. [Attempt j,
                            ConsoleLog (''DB not ready, retry '' @ string_of_nat (j + 1) @ ''/''
                                        @ string_of_nat 3 @ ''...''),
                            Sleep 1000]) [0..<2])
         @ [Attempt 2, ConsoleLog ''Database is ready''], Inr ())"
    by blast
  then have a: "waitForDatabase 3 1000 (\<lambda>i. i = 2) =
     ([Attempt 0, ConsoleLog ''DB not ready, retry 1/3...'', Sleep 1000,
       Attempt 1, ConsoleLog ''DB not ready, retry 2/3...'', Sleep 1000,
       Attempt 2, ConsoleLog ''Database is ready''], Inr ())"
    by (simp add: u n)
  from readiness_loops [of 3 "\<lambda>i. i = 1" 1000 None True 3 True] h2
  have "waitForServer 3 1000 (\<lambda>i. i = 1) =
        (concat (map (\<lambda>j. [Attempt j,
                            ConsoleLog (''Waiting for server... (attempt '' @ string_of_nat (j + 1)
                                        @ ''/'' @ string_of_nat 3 @ '')''),
                            Sleep 1000]) [0..<1])
         @ [Attempt 1, ConsoleLog ''Server is ready and responding\<newline>''], Inr True)"
    by blast
  then have e: "waitForServer 3 1000 (\<lambda>i. i = 1) =
     ([Attempt 0, ConsoleLog ''Waiting for server... (attempt 1/3)'', Sleep 1000,
       Attempt 1, ConsoleLog ''Server is ready and responding\<newline>''], Inr True)"
    by (simp add: u n)
  note th = readiness_loops [of 2 "\<lambda>i. False" 1000 None True 2 True]
  from th have "waitForDatabase 2 1000 (\<lambda>i. False) =
        (concat (map (\<lambda>j. [Attempt j,
                            ConsoleLog (''DB not ready, retry '' @ string_of_nat (j + 1) @ ''/''
                                        @ string_of_nat 2 @ ''...''),
                            Sleep 1000]) [0..<2]),
         Inl (JsError None ''Database did not become ready in time''))"
    by blast
  then have f: "waitForDatabase 2 1000 (\<lambda>i. False) =
     ([Attempt 0, ConsoleLog ''DB not ready, retry 1/2...'', Sleep 1000,
       Attempt 1, ConsoleLog ''DB not ready, retry 2/2...'', Sleep 1000],
      Inl (JsError None ''Database did not become ready in time''))"
    by (simp add: u n)
  from th have "waitForServer 2 1000 (\<lambda>i. False) =
        (concat (map (\<lambda>j. [Attempt j,
                            ConsoleLog (''Waiting for server... (attempt '' @ string_of_nat (j + 1)
                                        @ ''/'' @ string_of_nat 2 @ '')''),
                            Sleep 1000]) [0..<2]),
         Inl (JsError None ''Server did not become available in time''))"
    by blast
  then have b: "waitForServer 2 1000 (\<lambda>i. False) =
     ([Attempt 0, ConsoleLog ''Waiting for server... (attempt 1/2)'', Sleep 1000,
       Attempt 1, ConsoleLog ''Waiting for server... (attempt 2/2)'', Sleep 1000],
      Inl (JsError None ''Server did not become available in time''))"
    by (simp add: u n)
  from th have c: "snd (server_main (\<lambda>i. False) None True) = Exited 1" by blast
  from th have d: "snd (client_main (\<lambda>i. False) True) = Exited 1" by blast
  from a f c e b d show ?thesis by blast
qed

end
